theory Spec2Isabelle
  imports Main "HOL-Library.Word" "HOL-Library.Char_ord" "HOL-Library.List_Lexorder"
    "HOL-Library.Multiset"
begin

unbundle bit_operations_syntax

section \<open>Strings and bytes\<close>

text \<open>
  A Go \<open>string\<close> is a sequence of bytes and is modelled as \<^typ>\<open>string\<close> (a list of
  8-bit characters); a \<open>[]byte\<close> buffer is a list of 8-bit words. Go compares strings
  byte by byte, a proper prefix being smaller: this is the lexicographic order on
  \<^typ>\<open>char list\<close> over the numeric order on \<^typ>\<open>char\<close>.
\<close>

type_synonym byte = "8 word"

definition bytes_of :: "string \<Rightarrow> byte list" where
  "bytes_of s = map (\<lambda>c. of_char c) s"

definition string_of :: "byte list \<Rightarrow> string" where
  "string_of bs = map (\<lambda>b. char_of (unat b)) bs"

definition isUpperASCII :: "char \<Rightarrow> bool" where
  "isUpperASCII c \<longleftrightarrow> CHR ''A'' \<le> c \<and> c \<le> CHR ''Z''"

definition isLowerASCII :: "char \<Rightarrow> bool" where
  "isLowerASCII c \<longleftrightarrow> CHR ''a'' \<le> c \<and> c \<le> CHR ''z''"

definition lowerASCII :: "char \<Rightarrow> char" where
  "lowerASCII c = (if isUpperASCII c then char_of (of_char c + (32::nat)) else c)"

definition upperASCII :: "char \<Rightarrow> char" where
  "upperASCII c = (if isLowerASCII c then char_of (of_char c - (32::nat)) else c)"

definition isASCII :: "char \<Rightarrow> bool" where
  "isASCII c \<longleftrightarrow> (of_char c :: nat) < 128"

text \<open>\<open>strings.HasPrefix\<close>.\<close>

definition HasPrefix :: "string \<Rightarrow> string \<Rightarrow> bool" where
  "HasPrefix s p \<longleftrightarrow> take (length p) s = p"

text \<open>\<open>strings.Join\<close>.\<close>

fun Join :: "string list \<Rightarrow> string \<Rightarrow> string" where
  "Join [] sep = []"
| "Join [x] sep = x"
| "Join (x # y # ys) sep = x @ sep @ Join (y # ys) sep"

text \<open>
  \<open>strings.ToLower\<close>: a string of ASCII bytes only has its letters \<open>A\<close>..\<open>Z\<close> mapped
  to \<open>a\<close>..\<open>z\<close>; any other string is mapped rune by rune through the Unicode case
  tables of the standard library, which are the parameter \<open>uni\<close> here.
\<close>

definition ToLower :: "(string \<Rightarrow> string) \<Rightarrow> string \<Rightarrow> string" where
  "ToLower uni s = (if list_all isASCII s then map lowerASCII s else uni s)"

text \<open>
  \<open>strings.TrimSpace\<close> removes leading and trailing white space as Unicode defines it:
  the six ASCII characters and the UTF-8 encodings of the other code points of the
  property White_Space. A byte that starts no such encoding is no white space.
\<close>

definition unicodeSpaces :: "string list" where
  "unicodeSpaces =
     [[CHR 0x09], [CHR 0x0A], [CHR 0x0B], [CHR 0x0C], [CHR 0x0D], [CHR 0x20],
      [CHR 0xC2, CHR 0x85], [CHR 0xC2, CHR 0xA0],
      [CHR 0xE1, CHR 0x9A, CHR 0x80],
      [CHR 0xE2, CHR 0x80, CHR 0x80], [CHR 0xE2, CHR 0x80, CHR 0x81],
      [CHR 0xE2, CHR 0x80, CHR 0x82], [CHR 0xE2, CHR 0x80, CHR 0x83],
      [CHR 0xE2, CHR 0x80, CHR 0x84], [CHR 0xE2, CHR 0x80, CHR 0x85],
      [CHR 0xE2, CHR 0x80, CHR 0x86], [CHR 0xE2, CHR 0x80, CHR 0x87],
      [CHR 0xE2, CHR 0x80, CHR 0x88], [CHR 0xE2, CHR 0x80, CHR 0x89],
      [CHR 0xE2, CHR 0x80, CHR 0x8A], [CHR 0xE2, CHR 0x80, CHR 0xA8],
      [CHR 0xE2, CHR 0x80, CHR 0xA9], [CHR 0xE2, CHR 0x80, CHR 0xAF],
      [CHR 0xE2, CHR 0x81, CHR 0x9F], [CHR 0xE3, CHR 0x80, CHR 0x80]]"

definition matchLen :: "string list \<Rightarrow> string \<Rightarrow> nat" where
  "matchLen ps s = (case filter (HasPrefix s) ps of [] \<Rightarrow> 0 | p # _ \<Rightarrow> length p)"

lemma matchLen_pos:
  assumes "matchLen ps s \<noteq> 0"
  shows "s \<noteq> []"
proof
  assume "s = []"
  then have "\<forall>p \<in> set (filter (HasPrefix s) ps). p = []"
    by (auto simp: HasPrefix_def)
  then have "matchLen ps s = 0"
    by (cases "filter (HasPrefix s) ps") (auto simp: matchLen_def)
  with assms show False by simp
qed

function stripPrefixes :: "string list \<Rightarrow> string \<Rightarrow> string" where
  "stripPrefixes ps s =
     (if matchLen ps s = 0 then s else stripPrefixes ps (drop (matchLen ps s) s))"
  by pat_completeness auto
termination
  by (relation "measure (\<lambda>(ps, s). length s)") (use matchLen_pos in fastforce)+

declare stripPrefixes.simps [simp del]

definition TrimSpace :: "string \<Rightarrow> string" where
  "TrimSpace s =
     rev (stripPrefixes (map rev unicodeSpaces) (rev (stripPrefixes unicodeSpaces s)))"

section \<open>HTTP headers and requests\<close>

text \<open>
  \<open>http.Header\<close> is a Go map from header names to lists of values. It is modelled as
  an association list: the entries in the order in which a \<open>range\<close> loop visits them
  (an order the Go runtime picks afresh at every loop), the names being distinct.
\<close>

type_synonym header = "(string \<times> string list) list"

definition wf_header :: "header \<Rightarrow> bool" where
  "wf_header h \<longleftrightarrow> distinct (map fst h)"

definition validHeaderFieldByte :: "char \<Rightarrow> bool" where
  "validHeaderFieldByte c \<longleftrightarrow>
     isUpperASCII c \<or> isLowerASCII c \<or> (CHR ''0'' \<le> c \<and> c \<le> CHR ''9'') \<or>
     c \<in> set [CHR ''!'', CHR ''#'', CHR ''$'', CHR ''%'', CHR ''&'', CHR 0x27, CHR ''*'',
                CHR ''+'', CHR ''-'', CHR ''.'', CHR ''^'', CHR ''_'', CHR 0x60, CHR ''|'',
                CHR ''~'']"

fun canonicalLoop :: "bool \<Rightarrow> string \<Rightarrow> string" where
  "canonicalLoop upper [] = []"
| "canonicalLoop upper (c # cs) =
     (if upper \<and> isLowerASCII c then upperASCII c # canonicalLoop False cs
      else if \<not> upper \<and> isUpperASCII c then lowerASCII c # canonicalLoop False cs
      else c # canonicalLoop (c = CHR ''-'') cs)"

text \<open>
  \<open>textproto.CanonicalMIMEHeaderKey\<close>: a name made of header-field bytes only gets
  its first letter and every letter after a hyphen in upper case and the other letters
  in lower case; any other name is returned as it is.
\<close>

definition CanonicalMIMEHeaderKey :: "string \<Rightarrow> string" where
  "CanonicalMIMEHeaderKey s = (if list_all validHeaderFieldByte s then canonicalLoop True s else s)"

text \<open>\<open>Header.Get\<close>: the first value stored under the canonical form of the name.\<close>

definition Get :: "header \<Rightarrow> string \<Rightarrow> string" where
  "Get h key =
     (case map_of h (CanonicalMIMEHeaderKey key) of
        None \<Rightarrow> []
      | Some v \<Rightarrow> (case v of [] \<Rightarrow> [] | x # _ \<Rightarrow> x))"

text \<open>
  Of a \<open>url.URL\<close> the client reads the host, the result of \<open>EscapedPath()\<close> and
  nothing else; the raw query is kept to show that it is not read.
\<close>

record url =
  Host :: string
  EscapedPath :: string
  RawQuery :: string

record request =
  Method :: string
  URL :: url
  Header :: header
  Body :: "byte list"

section \<open>SHA-1, HMAC and base64\<close>

text \<open>
  \<open>crypto/sha1\<close>, \<open>crypto/hmac\<close> and \<open>encoding/base64\<close> of the standard library
  (FIPS 180-4, RFC 2104, RFC 4648). The 32-bit words of SHA-1 are natural numbers with the
  reduction modulo \<open>2^32\<close> written out.
\<close>

definition add32 :: "nat \<Rightarrow> nat \<Rightarrow> nat" where
  "add32 a b = (a + b) mod 4294967296"

definition rotl32 :: "nat \<Rightarrow> nat \<Rightarrow> nat" where
  "rotl32 n w = (w * 2 ^ n) mod 4294967296 + w div 2 ^ (32 - n)"

fun words_of :: "byte list \<Rightarrow> nat list" where
  "words_of (a # b # c # d # bs) =
     (16777216 * unat a + 65536 * unat b + 256 * unat c + unat d) # words_of bs"
| "words_of _ = []"

definition sha1_f :: "nat \<Rightarrow> nat \<Rightarrow> nat \<Rightarrow> nat \<Rightarrow> nat" where
  "sha1_f t b c d =
     (if t < 20 then (b AND c) OR ((4294967295 XOR b) AND d)
      else if t < 40 then b XOR c XOR d
      else if t < 60 then (b AND c) OR (b AND d) OR (c AND d)
      else b XOR c XOR d)"

definition sha1_k :: "nat \<Rightarrow> nat" where
  "sha1_k t =
     (if t < 20 then 0x5A827999 else if t < 40 then 0x6ED9EBA1
      else if t < 60 then 0x8F1BBCDC else 0xCA62C1D6)"

type_synonym sha1_state = "nat \<times> nat \<times> nat \<times> nat \<times> nat"

fun sha1_step :: "nat \<Rightarrow> nat \<Rightarrow> sha1_state \<Rightarrow> sha1_state" where
  "sha1_step t w (a, b, c, d, e) =
     (add32 (add32 (add32 (add32 (rotl32 5 a) (sha1_f t b c d)) e) w) (sha1_k t),
      a, rotl32 30 b, c, d)"

text \<open>The message schedule is a sliding window of sixteen words.\<close>

definition sha1_extend :: "nat list \<Rightarrow> nat list" where
  "sha1_extend ws = tl ws @ [rotl32 1 (ws ! 13 XOR ws ! 8 XOR ws ! 2 XOR ws ! 0)]"

function sha1_rounds :: "nat \<Rightarrow> nat list \<Rightarrow> sha1_state \<Rightarrow> sha1_state" where
  "sha1_rounds t ws st =
     (if 80 \<le> t then st
      else sha1_rounds (t + 1) (sha1_extend ws) (sha1_step t (hd ws) st))"
  by pat_completeness auto
termination
  by (relation "measure (\<lambda>(t, ws, st). 80 - t)") auto

declare sha1_rounds.simps [simp del]

fun sha1_add :: "sha1_state \<Rightarrow> sha1_state \<Rightarrow> sha1_state" where
  "sha1_add (h0, h1, h2, h3, h4) (a, b, c, d, e) =
     (add32 h0 a, add32 h1 b, add32 h2 c, add32 h3 d, add32 h4 e)"

definition sha1_block :: "sha1_state \<Rightarrow> byte list \<Rightarrow> sha1_state" where
  "sha1_block st blk = sha1_add st (sha1_rounds 0 (words_of blk) st)"

function sha1_blocks :: "sha1_state \<Rightarrow> byte list \<Rightarrow> sha1_state" where
  "sha1_blocks st bs =
     (if length bs < 64 then st else sha1_blocks (sha1_block st (take 64 bs)) (drop 64 bs))"
  by pat_completeness auto
termination
  by (relation "measure (\<lambda>(st, bs). length bs)") auto

declare sha1_blocks.simps [simp del]

definition bytes_be :: "nat list \<Rightarrow> nat \<Rightarrow> byte list" where
  "bytes_be shifts n = map (\<lambda>s. of_nat (n div 2 ^ s mod 256)) shifts"

definition sha1_pad :: "byte list \<Rightarrow> byte list" where
  "sha1_pad m =
     m @ [0x80] @ replicate ((119 - length m mod 64) mod 64) 0 @
     bytes_be [56, 48, 40, 32, 24, 16, 8, 0] (8 * length m)"

fun sha1_out :: "sha1_state \<Rightarrow> byte list" where
  "sha1_out (a, b, c, d, e) = concat (map (bytes_be [24, 16, 8, 0]) [a, b, c, d, e])"

definition sha1_init :: sha1_state where
  "sha1_init = (0x67452301, 0xEFCDAB89, 0x98BADCFE, 0x10325476, 0xC3D2E1F0)"

definition sha1 :: "byte list \<Rightarrow> byte list" where
  "sha1 m = sha1_out (sha1_blocks sha1_init (sha1_pad m))"

definition hmac_key :: "byte list \<Rightarrow> byte list" where
  "hmac_key key =
     (if 64 < length key then sha1 key @ replicate 44 0
      else key @ replicate (64 - length key) 0)"

definition hmac_sha1 :: "byte list \<Rightarrow> byte list \<Rightarrow> byte list" where
  "hmac_sha1 key msg =
     sha1 (map (\<lambda>b. b XOR 0x5C) (hmac_key key) @
           sha1 (map (\<lambda>b. b XOR 0x36) (hmac_key key) @ msg))"

definition base64_alphabet :: string where
  "base64_alphabet = ''ABCDEFGHIJKLMNOPQRSTUVWXYZabcdefghijklmnopqrstuvwxyz0123456789+/''"

definition b64 :: "nat \<Rightarrow> char" where
  "b64 n = base64_alphabet ! (n mod 64)"

fun base64_StdEncoding :: "byte list \<Rightarrow> string" where
  "base64_StdEncoding (a # b # c # bs) =
     [b64 (unat a div 4), b64 (unat a * 16 + unat b div 16),
      b64 (unat b * 4 + unat c div 64), b64 (unat c)] @ base64_StdEncoding bs"
| "base64_StdEncoding [a, b] =
     [b64 (unat a div 4), b64 (unat a * 16 + unat b div 16), b64 (unat b * 4), CHR ''='']"
| "base64_StdEncoding [a] = [b64 (unat a div 4), b64 (unat a * 16), CHR ''='', CHR ''='']"
| "base64_StdEncoding [] = []"

section \<open>The signer\<close>

text \<open>The line of one custom header: \<open>fmt.Sprintf("%s:%s", ...)\<close> in \<open>signature\<close>.\<close>

definition sectionLine :: "(string \<Rightarrow> string) \<Rightarrow> string \<Rightarrow> string list \<Rightarrow> string" where
  "sectionLine uni k v = ToLower uni k @ '':'' @ TrimSpace (Join v '','')"

text \<open>The loop over \<open>req.Header\<close>, appending to \<open>sections\<close>.\<close>

fun sectionsLoop :: "(string \<Rightarrow> string) \<Rightarrow> header \<Rightarrow> string list \<Rightarrow> string list" where
  "sectionsLoop uni [] sections = sections"
| "sectionsLoop uni ((k, v) # h) sections =
     sectionsLoop uni h
       (if 0 < length v \<and> (HasPrefix k ''X-Log-'' \<or> HasPrefix k ''X-Acs-'')
        then sections @ [sectionLine uni k v] else sections)"

definition signStr :: "(string \<Rightarrow> string) \<Rightarrow> request \<Rightarrow> string" where
  "signStr uni req =
     Join ([Method req, Get (Header req) ''Content-MD5'', Get (Header req) ''Content-Type'',
            Get (Header req) ''Date''] @
           sort (sectionsLoop uni (Header req) []) @
           [EscapedPath (URL req)]) [CHR 0x0A]"

text \<open>
  \<open>signature\<close>. Writing to a hash never fails (package \<open>hash\<close>), so the error branch
  after \<open>mac.Write\<close> is never taken and the result is always the digest.
\<close>

definition signature :: "(string \<Rightarrow> string) \<Rightarrow> byte list \<Rightarrow> request \<Rightarrow> string + string" where
  "signature uni secret req =
     Inr (base64_StdEncoding (hmac_sha1 secret (bytes_of (signStr uni req))))"

text \<open>
  The canonical string as the specification words it: one line for every header whose
  name starts, letter case ignored, with one of the two vendor prefixes.
\<close>

definition vendorPrefixCI :: "string \<Rightarrow> bool" where
  "vendorPrefixCI k \<longleftrightarrow>
     map lowerASCII (take 6 k) = ''x-log-'' \<or> map lowerASCII (take 6 k) = ''x-acs-''"

definition spec_canonical_string :: "(string \<Rightarrow> string) \<Rightarrow> request \<Rightarrow> string" where
  "spec_canonical_string uni req =
     Join ([Method req, Get (Header req) ''Content-MD5'', Get (Header req) ''Content-Type'',
            Get (Header req) ''Date''] @
           sort (map (\<lambda>kv. sectionLine uni (fst kv) (snd kv))
                   (filter (\<lambda>kv. vendorPrefixCI (fst kv)) (Header req))) @
           [EscapedPath (URL req)]) [CHR 0x0A]"

text \<open>The headers that \<open>signature\<close> canonicalises: the test of its loop.\<close>

definition vendorHeader :: "string \<times> string list \<Rightarrow> bool" where
  "vendorHeader kv \<longleftrightarrow>
     0 < length (snd kv) \<and> (HasPrefix (fst kv) ''X-Log-'' \<or> HasPrefix (fst kv) ''X-Acs-'')"

text \<open>
  The request of \<open>TestSignature\<close>, for the URL
  \<open>http://test-project.regionid.example.com/logstores/test-logstore\<close>: its path has
  no byte that escaping changes and it has no query.
\<close>

definition TestSignature_req :: request where
  "TestSignature_req =
     \<lparr>Method = ''POST'',
      URL = \<lparr>Host = ''test-project.regionid.example.com'',
             EscapedPath = ''/logstores/test-logstore'', RawQuery = []\<rparr>,
      Header = [(''Date'', [''Mon, 09 Nov 2015 06:03:03 GMT'']),
                (''Host'', [''test-project.regionid.example.com'']),
                (''X-Log-Apiversion'', [''0.6.0'']),
                (''X-Log-Signaturemethod'', [''hmac-sha1'']),
                (''Content-Md5'', [''1DD45FA4A70A9300CC9FE7305AF2C494'']),
                (''Content-Length'', [''52'']),
                (''X-Log-Bodyrawsize'', [''50'']),
                (''X-Log-Compresstype'', [''lz4''])],
      Body = []\<rparr>"

text \<open>A request whose only header is a vendor header spelled in lower case.\<close>

definition lowercase_req :: request where
  "lowercase_req =
     \<lparr>Method = ''POST'',
      URL = \<lparr>Host = ''h'', EscapedPath = ''/'', RawQuery = []\<rparr>,
      Header = [(''x-log-apiversion'', [''0.6.0''])],
      Body = []\<rparr>"

text \<open>The same request sent to another host, with an Authorization header.\<close>

definition TestSignature_req_resent :: request where
  "TestSignature_req_resent =
     \<lparr>Method = ''POST'',
      URL = \<lparr>Host = ''other-project.regionid.example.com'',
             EscapedPath = ''/logstores/test-logstore'', RawQuery = ''a=b''\<rparr>,
      Header = [(''Authorization'', [''LOG 123:abc'']),
                (''Date'', [''Mon, 09 Nov 2015 06:03:03 GMT'']),
                (''Host'', [''other-project.regionid.example.com'']),
                (''X-Log-Apiversion'', [''0.6.0'']),
                (''X-Log-Signaturemethod'', [''hmac-sha1'']),
                (''Content-Md5'', [''1DD45FA4A70A9300CC9FE7305AF2C494'']),
                (''Content-Length'', [''53'']),
                (''X-Log-Bodyrawsize'', [''50'']),
                (''X-Log-Compresstype'', [''lz4''])],
      Body = []\<rparr>"

section \<open>Results of Go functions\<close>

text \<open>
  A Go function of this client returns a value, returns an error value or stops in a
  run-time panic (an index or a slice bound out of range).
\<close>

datatype ('e, 'a) res = Ok 'a | Error 'e | Panic string

section \<open>The compressor\<close>

text \<open>\<open>lz4.CompressBlockBound\<close>: the size of the destination buffer.\<close>

definition CompressBlockBound :: "nat \<Rightarrow> nat" where
  "CompressBlockBound n = n + n div 255 + 16"

text \<open>
  The loop of \<open>copyIncompressible\<close> that writes the bytes \<open>0xFF\<close>. It ends in
  \<open>Inl\<close> when the function returns from inside the loop, in \<open>Inr\<close> with the
  remaining length, the index and the buffer when it falls through.
\<close>

function ffLoop ::
  "nat \<Rightarrow> nat \<Rightarrow> byte list \<Rightarrow> (string, (nat \<times> byte list) + (nat \<times> nat \<times> byte list)) res" where
  "ffLoop lLen di dst =
     (if 255 \<le> lLen then
        (if di < length dst then
           (if di + 1 = length dst then Ok (Inl (di + 1, dst[di := 0xFF]))
            else ffLoop (lLen - 255) (di + 1) (dst[di := 0xFF]))
         else Panic ''index out of range'')
      else Ok (Inr (lLen, di, dst)))"
  by pat_completeness auto
termination
  by (relation "measure (\<lambda>(lLen, di, dst). lLen)") auto

declare ffLoop.simps [simp del]

text \<open>
  The end of \<open>copyIncompressible\<close>, from \<open>if di++; di+len(src) > dn\<close> on: the index
  is advanced past the byte just written and the input is copied if it fits.
\<close>

definition copyTail :: "byte list \<Rightarrow> nat \<Rightarrow> byte list \<Rightarrow> (string, nat \<times> byte list) res" where
  "copyTail src di dst =
     (if length dst < di + 1 + length src then Ok (di + 1, dst)
      else Ok (di + 1 + length src,
               take (di + 1) dst @ src @ drop (di + 1 + length src) dst))"

text \<open>
  \<open>copyIncompressible\<close>. The buffer \<open>dst\<close> is written in place: the model returns
  the count together with the buffer after the writes.
\<close>

definition copyIncompressible :: "byte list \<Rightarrow> byte list \<Rightarrow> (string, nat \<times> byte list) res" where
  "copyIncompressible src dst =
     (if length dst = 0 then Panic ''index out of range''
      else if length src < 15 then copyTail src 0 (dst[0 := of_nat (length src * 16)])
      else if length dst = 1 then Ok (1, dst[0 := 0xF0])
      else
        (case ffLoop (length src - 15) 1 (dst[0 := 0xF0]) of
           Ok (Inl r) \<Rightarrow> Ok r
         | Ok (Inr (lLen, di, dst')) \<Rightarrow>
             (if di < length dst' then copyTail src di (dst'[di := of_nat lLen])
              else Panic ''index out of range'')
         | Error e \<Rightarrow> Error e
         | Panic p \<Rightarrow> Panic p))"

text \<open>
  \<open>compress\<close>. The block compressor \<open>lz4.CompressBlock\<close> of the library is the
  parameter \<open>cb\<close>: from the input and the destination buffer it returns an error, or the
  count it reports together with the buffer as it has written it. The hash table passed to
  it is all zero at every call. The slice \<open>out[:n]\<close> panics unless \<open>0 \<le> n \<le> cap(out)\<close>.
\<close>

type_synonym CompressBlock = "byte list \<Rightarrow> byte list \<Rightarrow> (string, int \<times> byte list) res"

definition sliceTo :: "nat \<Rightarrow> byte list \<Rightarrow> int \<Rightarrow> (string, byte list) res" where
  "sliceTo cap buf n =
     (if 0 \<le> n \<and> n \<le> int cap then Ok (take (nat n) buf)
      else Panic ''slice bounds out of range'')"

definition compress :: "CompressBlock \<Rightarrow> byte list \<Rightarrow> (string, byte list) res" where
  "compress cb data =
     (case cb data (replicate (CompressBlockBound (length data)) 0) of
        Error e \<Rightarrow> Error e
      | Panic p \<Rightarrow> Panic p
      | Ok (n, out) \<Rightarrow>
          (if n = 0 then
             (case copyIncompressible data out of
                Error e \<Rightarrow> Error e
              | Panic p \<Rightarrow> Panic p
              | Ok (n', out') \<Rightarrow>
                  sliceTo (CompressBlockBound (length data)) out' (int n'))
           else sliceTo (CompressBlockBound (length data)) out n))"

text \<open>
  The literal-only block as the specification describes it: the token, the continuation
  bytes of a length of 15 or more, and the input.
\<close>

definition literalHeader :: "nat \<Rightarrow> byte list" where
  "literalHeader L =
     (if L < 15 then [of_nat (L * 16)]
      else [0xF0] @ replicate ((L - 15) div 255) 0xFF @ [of_nat ((L - 15) mod 255)])"

definition literalBlock :: "byte list \<Rightarrow> byte list" where
  "literalBlock src = literalHeader (length src) @ src"

section \<open>JSON and the vendor error\<close>

text \<open>
  A JSON value as \<open>encoding/json\<close> reads it. A number is kept as its literal; the
  members of an object are kept in the order of the text.
\<close>

datatype json =
    JNull
  | JBool bool
  | JNumber string
  | JString string
  | JArray "json list"
  | JObject "(string \<times> json) list"

text \<open>
  Modelled from the spec: the declaration of \<open>AliyunError\<close>, which is not among the
  sources. It has the four fields that \<open>validateResponse\<close> and the tests use; the
  JSON names \<open>errorCode\<close> and \<open>errorMessage\<close> belong to \<open>Code\<close> and
  \<open>Message\<close>, and the other two fields have no JSON name.
\<close>

record AliyunError =
  HTTPCode :: "32 word"
  Code :: string
  Message :: string
  RequestID :: string

text \<open>An \<open>error\<close> value: an error of a library, or a pointer to an \<open>AliyunError\<close>.\<close>

datatype error = LibError string | VendorError AliyunError

text \<open>
  How \<open>encoding/json\<close> finds the field for a key: a field with exactly that name, or
  else one whose name is the same when letter case is ignored. Folding maps the ASCII
  letters to upper case and the two characters that Unicode folds to ASCII letters (the
  long s and the Kelvin sign, here in UTF-8) to \<open>S\<close> and \<open>K\<close>.
\<close>

fun foldName :: "string \<Rightarrow> string" where
  "foldName [] = []"
| "foldName (c # cs) =
     (if c = CHR 0xC5 \<and> take 1 cs = [CHR 0xBF] then CHR ''S'' # foldName (drop 1 cs)
      else if c = CHR 0xE2 \<and> take 2 cs = [CHR 0x84, CHR 0xAA] then CHR ''K'' # foldName (drop 2 cs)
      else upperASCII c # foldName cs)"

datatype field = FieldCode | FieldMessage

definition findField :: "string \<Rightarrow> field option" where
  "findField key =
     (if key = ''errorCode'' then Some FieldCode
      else if key = ''errorMessage'' then Some FieldMessage
      else if foldName key = foldName ''errorCode'' then Some FieldCode
      else if foldName key = foldName ''errorMessage'' then Some FieldMessage
      else None)"

definition setField :: "field \<Rightarrow> string \<Rightarrow> AliyunError \<Rightarrow> AliyunError" where
  "setField f s a = (case f of FieldCode \<Rightarrow> a\<lparr>Code := s\<rparr> | FieldMessage \<Rightarrow> a\<lparr>Message := s\<rparr>)"

text \<open>
  Decoding the members of an object into the struct, in their order. A string is stored in
  its field, \<open>null\<close> leaves the field as it is, a value of another kind is a type error,
  which is remembered (the first one) while decoding goes on; a key without a field is
  skipped.
\<close>

fun decodeMembers ::
  "(string \<times> json) list \<Rightarrow> AliyunError \<Rightarrow> string option \<Rightarrow> AliyunError \<times> string option" where
  "decodeMembers [] a err = (a, err)"
| "decodeMembers ((k, v) # kvs) a err =
     (case findField k of
        None \<Rightarrow> decodeMembers kvs a err
      | Some f \<Rightarrow>
          (case v of
             JString s \<Rightarrow> decodeMembers kvs (setField f s a) err
           | JNull \<Rightarrow> decodeMembers kvs a err
           | _ \<Rightarrow>
               decodeMembers kvs a
                 (case err of None \<Rightarrow> Some ''json: cannot unmarshal into Go struct field''
                  | Some e \<Rightarrow> Some e)))"

text \<open>\<open>json.Unmarshal\<close> of a value into an \<open>AliyunError\<close>.\<close>

definition unmarshal :: "json \<Rightarrow> AliyunError \<Rightarrow> string + AliyunError" where
  "unmarshal v a =
     (case v of
        JObject kvs \<Rightarrow>
          (case decodeMembers kvs a None of
             (a', None) \<Rightarrow> Inr a'
           | (a', Some e) \<Rightarrow> Inl e)
      | JNull \<Rightarrow> Inr a
      | _ \<Rightarrow> Inl ''json: cannot unmarshal into Go value of type AliyunError'')"

text \<open>
  \<open>json.NewDecoder(body).Decode(&aErr)\<close>. The scanner of the library, which reads the
  first JSON value of the body or fails (on a syntax error, or with \<open>io.EOF\<close> on an empty
  body), is the parameter \<open>scan\<close>.
\<close>

type_synonym scanner = "string \<Rightarrow> string + json"

definition Decode :: "scanner \<Rightarrow> string \<Rightarrow> AliyunError \<Rightarrow> string + AliyunError" where
  "Decode scan body a = (case scan body of Inl e \<Rightarrow> Inl e | Inr v \<Rightarrow> unmarshal v a)"

record response =
  StatusCode :: int
  RespHeader :: header
  RespBody :: string

text \<open>
  \<open>validateResponse\<close>: \<open>None\<close> is the \<open>nil\<close> error. The struct that the body is
  decoded into starts with the status, converted to \<open>int32\<close>, and the request id.
\<close>

definition newAliyunError :: "response \<Rightarrow> AliyunError" where
  "newAliyunError resp =
     \<lparr>HTTPCode = word_of_int (StatusCode resp), Code = [], Message = [],
      RequestID = Get (RespHeader resp) ''X-Log-Requestid''\<rparr>"

definition validateResponse :: "scanner \<Rightarrow> response \<Rightarrow> error option" where
  "validateResponse scan resp =
     (if StatusCode resp < 400 then None
      else
        (case Decode scan (RespBody resp) (newAliyunError resp) of
           Inl err \<Rightarrow> Some (LibError err)
         | Inr aErr \<Rightarrow> Some (VendorError aErr)))"

text \<open>
  Modelled from the spec: \<open>AliyunError.Error\<close>, which is not among the sources. The
  error is serialised to the JSON object of its two named fields.
\<close>

definition AliyunError_Error :: "AliyunError \<Rightarrow> json" where
  "AliyunError_Error e =
     JObject [(''errorCode'', JString (Code e)), (''errorMessage'', JString (Message e))]"

text \<open>
  Semantic equality of JSON values, as \<open>assert.JSONEq\<close> tests it: the members of an
  object count as a map from keys to values, the last member of a key being its value.
  The canonical form of a value keeps one member for each key and orders the keys.
\<close>

definition lastMembers :: "(string \<times> json) list \<Rightarrow> (string \<times> json) list" where
  "lastMembers kvs =
     List.map_filter (\<lambda>k. map_option (Pair k) (map_of (rev kvs) k))
       (sort (remdups (map fst kvs)))"

fun canon :: "json \<Rightarrow> json" where
  "canon (JArray vs) = JArray (map canon vs)"
| "canon (JObject kvs) = JObject (lastMembers (map (\<lambda>kv. (fst kv, canon (snd kv))) kvs))"
| "canon v = v"

definition JSONEq :: "json \<Rightarrow> json \<Rightarrow> bool" where
  "JSONEq a b \<longleftrightarrow> canon a = canon b"

section \<open>Messages and the encoder\<close>

text \<open>
  Of a \<open>time.Time\<close> the client reads \<open>Unix()\<close>, the whole seconds since 1970 (negative
  before), which leaves the nanoseconds within the second out. A \<open>Message\<close> has the
  fields that \<open>encode\<close> and the tests use; its \<open>Contents\<close>, a Go map, are the
  entries in the order in which the \<open>range\<close> loop visits them.
\<close>

record time =
  Unix :: int
  Nanosecond :: nat

record Message =
  Time :: time
  Contents :: "(string \<times> string) list"

text \<open>
  Modelled from the spec: the messages of package \<open>api\<close>, which is not among the
  sources. A log group has a topic, a source and logs; a log has a time of 32 bits and
  contents; a content is a key and a value. \<open>Logs\<close> is a slice of pointers, each of
  them a log or \<open>nil\<close>.
\<close>

record Log_Content =
  Key :: string
  Value :: string

record Log =
  Log_Time :: "32 word"
  Log_Contents :: "Log_Content list"

record LogGroup =
  Topic :: string
  Source :: string
  Logs :: "Log option list"

text \<open>
  The writer. Its field \<open>method\<close> is named \<open>httpMethod\<close> here, the plain name being
  a keyword.
\<close>

record writer =
  httpMethod :: string
  appKey :: string
  appSecret :: "byte list"
  uri :: url
  hHost :: "string list"
  topic :: string
  source :: string

definition NewWriter :: "url \<Rightarrow> string \<Rightarrow> string \<Rightarrow> string \<Rightarrow> byte list \<Rightarrow> writer" where
  "NewWriter u topic' source' accessKey accessSecret =
     \<lparr>httpMethod = ''POST'', appKey = accessKey, appSecret = accessSecret, uri = u,
      hHost = [Host u], topic = topic', source = source'\<rparr>"

text \<open>The inner loop of \<open>encode\<close>, over the contents of one message.\<close>

fun contentsLoop :: "(string \<times> string) list \<Rightarrow> Log_Content list \<Rightarrow> Log_Content list" where
  "contentsLoop [] contents = contents"
| "contentsLoop ((k, v) # kvs) contents = contentsLoop kvs (contents @ [\<lparr>Key = k, Value = v\<rparr>])"

text \<open>
  The outer loop of \<open>encode\<close>: the log of message \<open>i\<close> is stored at index \<open>i\<close> of
  \<open>group.Logs\<close>, its time being \<open>uint32(message.Time.Unix())\<close>.
\<close>

fun logsLoop :: "nat \<Rightarrow> Message list \<Rightarrow> Log option list \<Rightarrow> Log option list" where
  "logsLoop i [] logs = logs"
| "logsLoop i (message # messages) logs =
     logsLoop (i + 1) messages
       (logs[i := Some \<lparr>Log_Time = word_of_int (Unix (Time message)),
                         Log_Contents = contentsLoop (Contents message) []\<rparr>])"

definition encodeGroup :: "writer \<Rightarrow> Message list \<Rightarrow> LogGroup" where
  "encodeGroup w messages =
     \<lparr>Topic = topic w, Source = source w,
      Logs = logsLoop 0 messages (replicate (length messages) None)\<rparr>"

text \<open>
  \<open>encode\<close>. \<open>proto.Marshal\<close> of the library, with the marshalling code generated for
  package \<open>api\<close>, is the parameter \<open>marshal\<close>.
\<close>

type_synonym marshaller = "LogGroup \<Rightarrow> string + byte list"

definition encode :: "marshaller \<Rightarrow> writer \<Rightarrow> Message list \<Rightarrow> string + byte list" where
  "encode marshal w messages = marshal (encodeGroup w messages)"

section \<open>Building and sending the request\<close>

definition hContentType :: "string list" where "hContentType = [''application/x-protobuf'']"
definition hApiVersion :: "string list" where "hApiVersion = [''0.6.0'']"
definition hCompressType :: "string list" where "hCompressType = [''lz4'']"
definition hSignatureMethod :: "string list" where "hSignatureMethod = [''hmac-sha1'']"

text \<open>\<open>strconv.Itoa\<close> on a length.\<close>

function Itoa :: "nat \<Rightarrow> string" where
  "Itoa n = (if n < 10 then [char_of (48 + n)] else Itoa (n div 10) @ [char_of (48 + n mod 10)])"
  by pat_completeness auto
termination
  by (relation "measure (\<lambda>n. n)") auto

declare Itoa.simps [simp del]

text \<open>
  What the client takes from outside: the marshaller, the block compressor,
  \<open>http.NewRequest\<close> (which fails on a malformed method or URL), the MD5 digest in upper
  case hexadecimal digits, the Unicode case mapping, the JSON scanner, and, on a state
  \<open>'s\<close> of the outside world, the clock read by \<open>gmtNow\<close> and the HTTP client's
  \<open>Do\<close>.
\<close>

record 's env =
  proto_Marshal :: marshaller
  lz4_CompressBlock :: CompressBlock
  http_NewRequest :: "string \<Rightarrow> url \<Rightarrow> byte list \<Rightarrow> string + request"
  md5_hex :: "byte list \<Rightarrow> string"
  unicode_ToLower :: "string \<Rightarrow> string"
  json_scan :: scanner
  gmtNow :: "'s \<Rightarrow> string \<times> 's"
  client_Do :: "request \<Rightarrow> 's \<Rightarrow> (string + response) \<times> 's"

definition requestHeader :: "'s env \<Rightarrow> writer \<Rightarrow> byte list \<Rightarrow> byte list \<Rightarrow> string \<Rightarrow> header" where
  "requestHeader env w raw data date =
     [(''Content-Type'', hContentType),
      (''Content-Length'', [Itoa (length data)]),
      (''Content-Md5'', [md5_hex env data]),
      (''Date'', [date]),
      (''Host'', hHost w),
      (''X-Log-Apiversion'', hApiVersion),
      (''X-Log-Bodyrawsize'', [Itoa (length raw)]),
      (''X-Log-Compresstype'', hCompressType),
      (''X-Log-Signaturemethod'', hSignatureMethod)]"

text \<open>Assignment to a key of a header map.\<close>

definition setHeader :: "header \<Rightarrow> string \<Rightarrow> string list \<Rightarrow> header" where
  "setHeader h k v =
     (if k \<in> set (map fst h) then map (\<lambda>kv. if fst kv = k then (k, v) else kv) h
      else h @ [(k, v)])"

definition buildRequest ::
  "'s env \<Rightarrow> writer \<Rightarrow> byte list \<Rightarrow> byte list \<Rightarrow> 's \<Rightarrow> (error + request) \<times> 's" where
  "buildRequest env w raw data s =
     (case http_NewRequest env (httpMethod w) (uri w) data of
        Inl err \<Rightarrow> (Inl (LibError err), s)
      | Inr req \<Rightarrow>
          (case gmtNow env s of
             (date, s') \<Rightarrow>
               (case signature (unicode_ToLower env) (appSecret w)
                       (req\<lparr>Header := requestHeader env w raw data date\<rparr>) of
                  Inl err \<Rightarrow> (Inl (LibError err), s')
                | Inr sign \<Rightarrow>
                    (Inr (req\<lparr>Header :=
                            setHeader (requestHeader env w raw data date) ''Authorization''
                              [''LOG '' @ appKey w @ '':'' @ sign]\<rparr>), s'))))"

text \<open>\<open>fire\<close>: the request is sent and the response validated.\<close>

definition fire :: "'s env \<Rightarrow> request \<Rightarrow> 's \<Rightarrow> error option \<times> 's" where
  "fire env req s =
     (case client_Do env req s of
        (Inl err, s') \<Rightarrow> (Some (LibError err), s')
      | (Inr resp, s') \<Rightarrow> (validateResponse (json_scan env) resp, s'))"

text \<open>\<open>WriteMessage\<close>: \<open>Ok ()\<close> is the \<open>nil\<close> error.\<close>

definition WriteMessage ::
  "'s env \<Rightarrow> writer \<Rightarrow> Message list \<Rightarrow> 's \<Rightarrow> (error, unit) res \<times> 's" where
  "WriteMessage env w messages s =
     (if length messages = 0 then (Ok (), s)
      else
        (case encode (proto_Marshal env) w messages of
           Inl err \<Rightarrow> (Error (LibError err), s)
         | Inr raw \<Rightarrow>
             (case compress (lz4_CompressBlock env) raw of
                Error err \<Rightarrow> (Error (LibError err), s)
              | Panic p \<Rightarrow> (Panic p, s)
              | Ok data \<Rightarrow>
                  (case buildRequest env w raw data s of
                     (Inl err, s') \<Rightarrow> (Error err, s')
                   | (Inr req, s') \<Rightarrow>
                       (case fire env req s' of
                          (None, s'') \<Rightarrow> (Ok (), s'')
                        | (Some err, s'') \<Rightarrow> (Error err, s''))))))"

text \<open>The log that \<open>encode\<close> builds for a message.\<close>

definition logOf :: "Message \<Rightarrow> Log" where
  "logOf message =
     \<lparr>Log_Time = word_of_int (Unix (Time message)),
      Log_Contents = map (\<lambda>kv. \<lparr>Key = fst kv, Value = snd kv\<rparr>) (Contents message)\<rparr>"

text \<open>The writer of the tests, and messages of 1969 and 2106.\<close>

definition TestWriter_writer :: writer where
  "TestWriter_writer =
     NewWriter \<lparr>Host = ''127.0.0.1:8080'', EscapedPath = [], RawQuery = []\<rparr>
       ''test-topic'' ''127.0.0.1'' ''123'' (bytes_of ''321'')"

definition message1969 :: Message where
  "message1969 = \<lparr>Time = \<lparr>Unix = - 1, Nanosecond = 0\<rparr>, Contents = [(''key'', ''value'')]\<rparr>"

definition message2106 :: Message where
  "message2106 = \<lparr>Time = \<lparr>Unix = 4294967296, Nanosecond = 0\<rparr>, Contents = [(''key'', ''value'')]\<rparr>"

section \<open>The wire format\<close>

text \<open>
  Modelled from the spec: the binary payload schema (the marshalling code generated for
  package \<open>api\<close> is not among the sources, and the repository has no decoder). A group is
  the fields 1 (topic), 2 (source) and 3 (one for each log); a log is the fields 1 (time,
  a varint) and 2 (one for each content); a content is the fields 1 (key) and 2 (value).
  Strings and nested messages are length-delimited. A base-128 varint comes first.
\<close>

function varint :: "nat \<Rightarrow> byte list" where
  "varint n = (if n < 128 then [of_nat n] else of_nat (128 + n mod 128) # varint (n div 128))"
  by pat_completeness auto
termination
  by (relation "measure (\<lambda>n. n)") auto

declare varint.simps [simp del]

fun getVarint :: "byte list \<Rightarrow> (nat \<times> byte list) option" where
  "getVarint [] = None"
| "getVarint (b # bs) =
     (if unat b < 128 then Some (unat b, bs)
      else (case getVarint bs of
              None \<Rightarrow> None
            | Some (n, rest) \<Rightarrow> Some (unat b - 128 + 128 * n, rest)))"

text \<open>A length-delimited field (wire type 2) and a varint field (wire type 0).\<close>

definition lenField :: "nat \<Rightarrow> byte list \<Rightarrow> byte list" where
  "lenField f payload = varint (8 * f + 2) @ varint (length payload) @ payload"

definition varintField :: "nat \<Rightarrow> nat \<Rightarrow> byte list" where
  "varintField f n = varint (8 * f) @ varint n"

definition wire_Content :: "Log_Content \<Rightarrow> byte list" where
  "wire_Content c = lenField 1 (bytes_of (Key c)) @ lenField 2 (bytes_of (Value c))"

definition wire_Log :: "Log \<Rightarrow> byte list" where
  "wire_Log l =
     varintField 1 (unat (Log_Time l)) @
     concat (map (\<lambda>c. lenField 2 (wire_Content c)) (Log_Contents l))"

text \<open>The marshaller: it fails on a \<open>nil\<close> log, as \<open>proto.Marshal\<close> does.\<close>

definition wire_LogGroup :: marshaller where
  "wire_LogGroup g =
     (if None \<in> set (Logs g) then Inl ''proto: repeated field Logs has nil element''
      else Inr (lenField 1 (bytes_of (Topic g)) @ lenField 2 (bytes_of (Source g)) @
                concat (map (\<lambda>l. lenField 3 (wire_Log l)) (List.map_filter id (Logs g)))))"

text \<open>
  A decoder of this schema: the fields of a message in their order, then each message
  built from its fields, a later value of a single field replacing an earlier one and
  fields with other numbers being skipped.
\<close>

datatype wire_value = Varint nat | Bytes "byte list"

lemma getVarint_shorter: "getVarint bs = Some (n, rest) \<Longrightarrow> length rest < length bs"
proof (induction bs arbitrary: n rest)
  case Nil
  then show ?case by simp
next
  case (Cons b bs)
  then show ?case
    by (fastforce split: if_splits option.splits)
qed

function getFields :: "byte list \<Rightarrow> (nat \<times> wire_value) list option" where
  "getFields bs =
     (if bs = [] then Some []
      else
        (case getVarint bs of
           None \<Rightarrow> None
         | Some (tag, rest) \<Rightarrow>
             (if tag mod 8 = 0 then
                (case getVarint rest of
                   None \<Rightarrow> None
                 | Some (v, rest') \<Rightarrow>
                     map_option (\<lambda>fs. (tag div 8, Varint v) # fs) (getFields rest'))
              else if tag mod 8 = 2 then
                (case getVarint rest of
                   None \<Rightarrow> None
                 | Some (n, rest') \<Rightarrow>
                     (if length rest' < n then None
                      else map_option (\<lambda>fs. (tag div 8, Bytes (take n rest')) # fs)
                             (getFields (drop n rest'))))
              else None)))"
  by pat_completeness auto
termination
proof (relation "measure length", goal_cases)
  case 1
  show ?case by simp
next
  case (2 bs x2 tag rest x3 v rest')
  then show ?case
    using getVarint_shorter [of bs tag rest] getVarint_shorter [of rest v rest'] by simp
next
  case (3 bs x2 tag rest x3 n rest')
  then show ?case
    using getVarint_shorter [of bs tag rest] getVarint_shorter [of rest n rest'] by simp
qed

declare getFields.simps [simp del]


fun foldFields ::
  "('a \<Rightarrow> nat \<times> wire_value \<Rightarrow> 'a option) \<Rightarrow> 'a \<Rightarrow> (nat \<times> wire_value) list \<Rightarrow> 'a option" where
  "foldFields f a [] = Some a"
| "foldFields f a (x # xs) = (case f a x of None \<Rightarrow> None | Some a' \<Rightarrow> foldFields f a' xs)"

definition contentField :: "Log_Content \<Rightarrow> nat \<times> wire_value \<Rightarrow> Log_Content option" where
  "contentField c fv =
     (case snd fv of
        Bytes b \<Rightarrow>
          (if fst fv = 1 then Some (c\<lparr>Key := string_of b\<rparr>)
           else if fst fv = 2 then Some (c\<lparr>Value := string_of b\<rparr>)
           else Some c)
      | Varint n \<Rightarrow> Some c)"

definition decode_Content :: "byte list \<Rightarrow> Log_Content option" where
  "decode_Content bs =
     (case getFields bs of
        None \<Rightarrow> None
      | Some fs \<Rightarrow> foldFields contentField \<lparr>Key = [], Value = []\<rparr> fs)"

definition logField :: "Log \<Rightarrow> nat \<times> wire_value \<Rightarrow> Log option" where
  "logField l fv =
     (case snd fv of
        Varint n \<Rightarrow> (if fst fv = 1 then Some (l\<lparr>Log_Time := of_nat n\<rparr>) else Some l)
      | Bytes b \<Rightarrow>
          (if fst fv = 2 then
             (case decode_Content b of
                None \<Rightarrow> None
              | Some c \<Rightarrow> Some (l\<lparr>Log_Contents := Log_Contents l @ [c]\<rparr>))
           else Some l))"

definition decode_Log :: "byte list \<Rightarrow> Log option" where
  "decode_Log bs =
     (case getFields bs of
        None \<Rightarrow> None
      | Some fs \<Rightarrow> foldFields logField \<lparr>Log_Time = 0, Log_Contents = []\<rparr> fs)"

definition groupField :: "LogGroup \<Rightarrow> nat \<times> wire_value \<Rightarrow> LogGroup option" where
  "groupField g fv =
     (case snd fv of
        Varint n \<Rightarrow> Some g
      | Bytes b \<Rightarrow>
          (if fst fv = 1 then Some (g\<lparr>Topic := string_of b\<rparr>)
           else if fst fv = 2 then Some (g\<lparr>Source := string_of b\<rparr>)
           else if fst fv = 3 then
             (case decode_Log b of
                None \<Rightarrow> None
              | Some l \<Rightarrow> Some (g\<lparr>Logs := Logs g @ [Some l]\<rparr>))
           else Some g))"

definition decode_LogGroup :: "byte list \<Rightarrow> LogGroup option" where
  "decode_LogGroup bs =
     (case getFields bs of
        None \<Rightarrow> None
      | Some fs \<Rightarrow> foldFields groupField \<lparr>Topic = [], Source = [], Logs = []\<rparr> fs)"

text \<open>\<open>ShortMessage\<close> of the tests: midnight of 1 January 2020, GMT.\<close>

definition ShortMessage :: Message where
  "ShortMessage =
     \<lparr>Time = \<lparr>Unix = 1577836800, Nanosecond = 0\<rparr>, Contents = [(''key'', ''value'')]\<rparr>"

text \<open>
  The times of the logs decoded from the encoder's output, and the Unix times of the
  messages.
\<close>

definition decodedTimes :: "writer \<Rightarrow> Message list \<Rightarrow> int list option" where
  "decodedTimes w messages =
     (case encode wire_LogGroup w messages of
        Inl err \<Rightarrow> None
      | Inr bs \<Rightarrow>
          (case decode_LogGroup bs of
             None \<Rightarrow> None
           | Some g \<Rightarrow> Some (map (\<lambda>l. uint (Log_Time l)) (List.map_filter id (Logs g)))))"

definition unixTimes :: "Message list \<Rightarrow> int list" where
  "unixTimes messages = map (\<lambda>m. Unix (Time m)) messages"

text \<open>
  The error response of \<open>TestWriter\<close>, a scanner that reads its body, and a response
  with status 200.
\<close>

definition TestWriter_body :: string where
  "TestWriter_body = ''{\"errorCode\":\"ParameterInvalid\",\"errorMessage\":\"http extend authorization : LOG :WL2xp3EYvKpsIGgwE3s5HHK7M/c= pair is invalid\"}''"

definition TestWriter_json :: json where
  "TestWriter_json =
     JObject [(''errorCode'', JString ''ParameterInvalid''),
              (''errorMessage'',
               JString ''http extend authorization : LOG :WL2xp3EYvKpsIGgwE3s5HHK7M/c= pair is invalid'')]"

definition TestWriter_scan :: scanner where
  "TestWriter_scan body = (if body = TestWriter_body then Inr TestWriter_json else Inl ''EOF'')"

definition TestWriter_error_response :: response where
  "TestWriter_error_response =
     \<lparr>StatusCode = 401, RespHeader = [(''X-Log-Requestid'', [''123''])],
      RespBody = TestWriter_body\<rparr>"

definition TestWriter_ok_response :: response where
  "TestWriter_ok_response = \<lparr>StatusCode = 200, RespHeader = [], RespBody = ''anything''\<rparr>"

text \<open>
  A block compressor that reports zero bytes on every input, one that writes two bytes on
  every input, and an input of twenty bytes.
\<close>

definition noCompression :: CompressBlock where
  "noCompression src dst = Ok (0, dst)"

definition twoByteCompression :: CompressBlock where
  "twoByteCompression src dst = Ok (2, dst[0 := 0x11, 1 := 0x22])"

definition twentyBytes :: "byte list" where
  "twentyBytes = [1, 2, 3, 4, 5, 6, 7, 8, 9, 10, 11, 12, 13, 14, 15, 16, 17, 18, 19, 20]"

section \<open>Evaluation\<close>

lemma replicate_numeral_Cons: "replicate (numeral k) x = x # replicate (pred_numeral k) x"
  by (simp add: numeral_eq_Suc)

lemmas char_eval = isUpperASCII_def isLowerASCII_def lowerASCII_def upperASCII_def isASCII_def
  char_of_def bit_Suc_0_iff validHeaderFieldByte_def

lemmas string_eval = HasPrefix_def ToLower_def TrimSpace_def stripPrefixes.simps matchLen_def
  unicodeSpaces_def CanonicalMIMEHeaderKey_def Get_def

lemmas sha1_eval = sha1_block_def sha1_rounds.simps sha1_extend_def sha1_f_def sha1_k_def
  add32_def rotl32_def

section \<open>Properties of the signer\<close>

lemma sectionsLoop_filter:
  "sectionsLoop uni h acc =
     acc @ map (\<lambda>kv. sectionLine uni (fst kv) (snd kv)) (filter vendorHeader h)"
  by (induction h arbitrary: acc) (auto simp: vendorHeader_def)

lemma signStr_filter:
  "signStr uni req =
     Join ([Method req, Get (Header req) ''Content-MD5'', Get (Header req) ''Content-Type'',
            Get (Header req) ''Date''] @
           sort (map (\<lambda>kv. sectionLine uni (fst kv) (snd kv))
                   (filter vendorHeader (Header req))) @
           [EscapedPath (URL req)]) [CHR 0x0A]"
  by (simp add: signStr_def sectionsLoop_filter)

lemma Get_Content_MD5: "Get h ''Content-MD5'' = Get h ''Content-Md5''"
  by (simp add: Get_def CanonicalMIMEHeaderKey_def char_eval)

text \<open>
  C1, as the code has it. The canonical string is the method, the first values stored under
  \<open>Content-Md5\<close>, \<open>Content-Type\<close> and \<open>Date\<close>, one line
  \<open>lowercase-name:trimmed,comma-joined-values\<close> for every header that has a value and
  whose name, as it is keyed in the header map, starts with \<open>X-Log-\<close> or \<open>X-Acs-\<close>
  in exactly this spelling, these lines sorted in ascending order, and the escaped path,
  all joined by newlines. The query string of the URL has no influence.
\<close>

theorem signStr_canonical:
  "signStr uni req =
     Join ([Method req, Get (Header req) ''Content-Md5'', Get (Header req) ''Content-Type'',
            Get (Header req) ''Date''] @
           sort (map (\<lambda>kv. ToLower uni (fst kv) @ '':'' @ TrimSpace (Join (snd kv) '',''))
                   (filter vendorHeader (Header req))) @
           [EscapedPath (URL req)]) [CHR 0x0A]
   \<and> signStr uni (req\<lparr>URL := (URL req)\<lparr>RawQuery := q\<rparr>\<rparr>) = signStr uni req"
  unfolding signStr_filter sectionLine_def Get_Content_MD5 by simp

lemma lowercase_line:
  "sectionLine id ''x-log-apiversion'' [''0.6.0''] = ''x-log-apiversion:0.6.0''"
  by (simp add: sectionLine_def char_eval string_eval)

lemma lowercase_signStr:
  "signStr id lowercase_req = ''POST'' @ [CHR 0x0A, CHR 0x0A, CHR 0x0A, CHR 0x0A] @ ''/''"
  by (simp add: signStr_def lowercase_req_def Get_def CanonicalMIMEHeaderKey_def HasPrefix_def
      char_eval)

lemma lowercase_spec:
  "spec_canonical_string id lowercase_req =
     ''POST'' @ [CHR 0x0A, CHR 0x0A, CHR 0x0A, CHR 0x0A] @ ''x-log-apiversion:0.6.0'' @
     [CHR 0x0A] @ ''/''"
  by (simp add: spec_canonical_string_def lowercase_req_def vendorPrefixCI_def lowercase_line
      Get_def CanonicalMIMEHeaderKey_def char_eval)

text \<open>
  With the prefix test read without regard to letter case, the header
  \<open>x-log-apiversion\<close> would give a line; the code, which compares with \<open>X-Log-\<close>
  as spelled, leaves it out.
\<close>

theorem signStr_case_insensitive_counterexample:
  "signStr id lowercase_req \<noteq> spec_canonical_string id lowercase_req"
  by (simp add: lowercase_signStr lowercase_spec)

subsection \<open>The test vector\<close>

lemma TestSignature_signStr:
  "signStr uni TestSignature_req =
     ''POST'' @ [CHR 0x0A] @ ''1DD45FA4A70A9300CC9FE7305AF2C494'' @ [CHR 0x0A, CHR 0x0A] @
     ''Mon, 09 Nov 2015 06:03:03 GMT'' @ [CHR 0x0A] @ ''x-log-apiversion:0.6.0'' @ [CHR 0x0A] @
     ''x-log-bodyrawsize:50'' @ [CHR 0x0A] @ ''x-log-compresstype:lz4'' @ [CHR 0x0A] @
     ''x-log-signaturemethod:hmac-sha1'' @ [CHR 0x0A] @ ''/logstores/test-logstore''"
  by (simp add: signStr_def TestSignature_req_def sectionLine_def char_eval string_eval)

text \<open>
  The compression function on each of the five blocks of the inner hash and the two of
  the outer.
\<close>

lemma sig_inner_block1:
  "sha1_block (1732584193, 4023233417, 2562383102, 271733878, 3285377520)
     [5, 4, 7, 54, 54, 54, 54, 54, 54, 54, 54, 54, 54, 54, 54, 54, 54, 54, 54, 54, 54, 54, 54, 54, 54, 54, 54, 54, 54, 54, 54, 54, 54, 54, 54, 54, 54, 54, 54, 54, 54, 54, 54, 54, 54, 54, 54, 54, 54, 54, 54, 54, 54, 54, 54, 54, 54, 54, 54, 54, 54, 54, 54, 54] =
   (377745247, 3867920457, 4058860948, 351901904, 18042217)"
  by (simp add: sha1_eval)

lemma sig_inner_block2:
  "sha1_block (377745247, 3867920457, 4058860948, 351901904, 18042217)
     [80, 79, 83, 84, 10, 49, 68, 68, 52, 53, 70, 65, 52, 65, 55, 48, 65, 57, 51, 48, 48, 67, 67, 57, 70, 69, 55, 51, 48, 53, 65, 70, 50, 67, 52, 57, 52, 10, 10, 77, 111, 110, 44, 32, 48, 57, 32, 78, 111, 118, 32, 50, 48, 49, 53, 32, 48, 54, 58, 48, 51, 58, 48, 51] =
   (510411852, 1541879220, 1217631351, 3427532879, 1698044453)"
  by (simp add: sha1_eval)

lemma sig_inner_block3:
  "sha1_block (510411852, 1541879220, 1217631351, 3427532879, 1698044453)
     [32, 71, 77, 84, 10, 120, 45, 108, 111, 103, 45, 97, 112, 105, 118, 101, 114, 115, 105, 111, 110, 58, 48, 46, 54, 46, 48, 10, 120, 45, 108, 111, 103, 45, 98, 111, 100, 121, 114, 97, 119, 115, 105, 122, 101, 58, 53, 48, 10, 120, 45, 108, 111, 103, 45, 99, 111, 109, 112, 114, 101, 115, 115, 116] =
   (1812856328, 3854864412, 199337166, 3482927920, 2520851656)"
  by (simp add: sha1_eval)

lemma sig_inner_block4:
  "sha1_block (1812856328, 3854864412, 199337166, 3482927920, 2520851656)
     [121, 112, 101, 58, 108, 122, 52, 10, 120, 45, 108, 111, 103, 45, 115, 105, 103, 110, 97, 116, 117, 114, 101, 109, 101, 116, 104, 111, 100, 58, 104, 109, 97, 99, 45, 115, 104, 97, 49, 10, 47, 108, 111, 103, 115, 116, 111, 114, 101, 115, 47, 116, 101, 115, 116, 45, 108, 111, 103, 115, 116, 111, 114, 101] =
   (1999286525, 2529318323, 977447799, 595636724, 3545876684)"
  by (simp add: sha1_eval)

lemma sig_inner_block5:
  "sha1_block (1999286525, 2529318323, 977447799, 595636724, 3545876684)
     [128, 0, 0, 0, 0, 0, 0, 0, 0, 0, 0, 0, 0, 0, 0, 0, 0, 0, 0, 0, 0, 0, 0, 0, 0, 0, 0, 0, 0, 0, 0, 0, 0, 0, 0, 0, 0, 0, 0, 0, 0, 0, 0, 0, 0, 0, 0, 0, 0, 0, 0, 0, 0, 0, 0, 0, 0, 0, 0, 0, 0, 0, 8, 0] =
   (4028451089, 3862231598, 360914573, 3348817280, 3504289345)"
  by (simp add: sha1_eval)

lemma sig_outer_block1:
  "sha1_block (1732584193, 4023233417, 2562383102, 271733878, 3285377520)
     [111, 110, 109, 92, 92, 92, 92, 92, 92, 92, 92, 92, 92, 92, 92, 92, 92, 92, 92, 92, 92, 92, 92, 92, 92, 92, 92, 92, 92, 92, 92, 92, 92, 92, 92, 92, 92, 92, 92, 92, 92, 92, 92, 92, 92, 92, 92, 92, 92, 92, 92, 92, 92, 92, 92, 92, 92, 92, 92, 92, 92, 92, 92, 92] =
   (2977122555, 1399104251, 832155070, 3300075460, 1389756594)"
  by (simp add: sha1_eval)

lemma sig_outer_block2:
  "sha1_block (2977122555, 1399104251, 832155070, 3300075460, 1389756594)
     [240, 29, 73, 17, 230, 52, 250, 46, 21, 131, 30, 141, 199, 154, 229, 128, 208, 223, 54, 65, 128, 0, 0, 0, 0, 0, 0, 0, 0, 0, 0, 0, 0, 0, 0, 0, 0, 0, 0, 0, 0, 0, 0, 0, 0, 0, 0, 0, 0, 0, 0, 0, 0, 0, 0, 0, 0, 0, 0, 0, 0, 0, 2, 160] =
   (3221191415, 3901927820, 102158359, 53309800, 2943038514)"
  by (simp add: sha1_eval)

lemma TestSignature_hmac:
  "hmac_sha1 (bytes_of ''321'') (bytes_of (signStr uni TestSignature_req)) =
     [191, 255, 122, 247, 232, 146, 177, 140, 6, 22, 208, 23, 3, 45, 113, 104, 175, 107, 52, 50]"
  by (simp add: TestSignature_signStr hmac_sha1_def hmac_key_def bytes_of_def sha1_def
      sha1_pad_def sha1_init_def bytes_be_def sha1_blocks.simps replicate_numeral_Cons
      sig_inner_block1 sig_inner_block2 sig_inner_block3 sig_inner_block4 sig_inner_block5
      sig_outer_block1 sig_outer_block2)

text \<open>
  C2. For the secret \<open>321\<close> and the request of \<open>TestSignature\<close> (method POST, the
  eight headers, path \<open>/logstores/test-logstore\<close>), \<open>signature\<close> returns
  \<open>v/969+iSsYwGFtAXAy1xaK9rNDI=\<close>, the base64 form of the HMAC-SHA1 of the canonical
  string under the secret.
\<close>

theorem TestSignature_value:
  "signature uni (bytes_of ''321'') TestSignature_req = Inr ''v/969+iSsYwGFtAXAy1xaK9rNDI=''"
  by (simp add: signature_def TestSignature_hmac b64_def base64_alphabet_def)

subsection \<open>Headers outside the canonical set\<close>

lemma sort_map_filter_cong:
  fixes f :: "'a \<Rightarrow> 'b::linorder"
  assumes "distinct xs" "distinct ys" "set (filter P xs) = set (filter P ys)"
  shows "sort (map f (filter P xs)) = sort (map f (filter P ys))"
proof -
  have "distinct (filter P xs)" "distinct (filter P ys)"
    using assms(1,2) by simp_all
  then have "mset (filter P xs) = mset (filter P ys)"
    using assms(3) set_eq_iff_mset_eq_distinct by blast
  then have "mset (map f (filter P xs)) = mset (map f (filter P ys))"
    by (metis mset_map)
  then show ?thesis
    by (metis properties_for_sort sorted_sort mset_sort)
qed

lemma vendor_entries_agree:
  assumes "wf_header h1" "wf_header h2"
    and "\<forall>k. HasPrefix k ''X-Log-'' \<or> HasPrefix k ''X-Acs-'' \<longrightarrow> map_of h1 k = map_of h2 k"
  shows "set (filter vendorHeader h1) = set (filter vendorHeader h2)"
  using assms by (auto simp: wf_header_def vendorHeader_def)

text \<open>
  C9. Two requests that agree on the method, on the escaped path, on the values of
  Content-MD5, Content-Type and Date and on every header whose name starts with
  \<open>X-Log-\<close> or \<open>X-Acs-\<close> get the same signature, whatever their other headers
  (Host, Content-Length, Authorization, ...) are.
\<close>

theorem signature_ignores_other_headers:
  assumes "wf_header (Header r1)" and "wf_header (Header r2)"
    and "Method r1 = Method r2"
    and "EscapedPath (URL r1) = EscapedPath (URL r2)"
    and "Get (Header r1) ''Content-MD5'' = Get (Header r2) ''Content-MD5''"
    and "Get (Header r1) ''Content-Type'' = Get (Header r2) ''Content-Type''"
    and "Get (Header r1) ''Date'' = Get (Header r2) ''Date''"
    and "\<forall>k. HasPrefix k ''X-Log-'' \<or> HasPrefix k ''X-Acs-'' \<longrightarrow>
           map_of (Header r1) k = map_of (Header r2) k"
  shows "signature uni secret r1 = signature uni secret r2"
proof -
  have d: "distinct (Header r1)" "distinct (Header r2)"
    using assms(1,2) by (auto simp: wf_header_def distinct_map)
  have "sort (map (\<lambda>kv. sectionLine uni (fst kv) (snd kv)) (filter vendorHeader (Header r1))) =
        sort (map (\<lambda>kv. sectionLine uni (fst kv) (snd kv)) (filter vendorHeader (Header r2)))"
    by (rule sort_map_filter_cong [OF d vendor_entries_agree [OF assms(1,2,8)]])
  then have "signStr uni r1 = signStr uni r2"
    using assms(3-7) by (simp add: signStr_filter)
  then show ?thesis by (simp add: signature_def)
qed

text \<open>
  The request of \<open>TestSignature\<close> and one that differs from it in Host, Content-Length,
  Authorization and the query string.
\<close>

theorem signature_ignores_other_headers_witness:
  "wf_header (Header TestSignature_req) \<and> wf_header (Header TestSignature_req_resent) \<and>
   Method TestSignature_req = Method TestSignature_req_resent \<and>
   EscapedPath (URL TestSignature_req) = EscapedPath (URL TestSignature_req_resent) \<and>
   Get (Header TestSignature_req) ''Content-MD5'' =
     Get (Header TestSignature_req_resent) ''Content-MD5'' \<and>
   Get (Header TestSignature_req) ''Content-Type'' =
     Get (Header TestSignature_req_resent) ''Content-Type'' \<and>
   Get (Header TestSignature_req) ''Date'' = Get (Header TestSignature_req_resent) ''Date'' \<and>
   Get (Header TestSignature_req) ''Host'' \<noteq> Get (Header TestSignature_req_resent) ''Host'' \<and>
   signature id (bytes_of ''321'') TestSignature_req =
     signature id (bytes_of ''321'') TestSignature_req_resent"
proof -
  let ?A = TestSignature_req and ?B = TestSignature_req_resent
  have wf: "wf_header (Header ?A)" "wf_header (Header ?B)"
    by (simp_all add: wf_header_def TestSignature_req_def TestSignature_req_resent_def)
  have same: "Method ?A = Method ?B" "EscapedPath (URL ?A) = EscapedPath (URL ?B)"
    by (simp_all add: TestSignature_req_def TestSignature_req_resent_def)
  have get: "Get (Header ?A) ''Content-MD5'' = Get (Header ?B) ''Content-MD5''"
    "Get (Header ?A) ''Content-Type'' = Get (Header ?B) ''Content-Type''"
    "Get (Header ?A) ''Date'' = Get (Header ?B) ''Date''"
    "Get (Header ?A) ''Host'' \<noteq> Get (Header ?B) ''Host''"
    by (simp_all add: TestSignature_req_def TestSignature_req_resent_def Get_def
        CanonicalMIMEHeaderKey_def char_eval)
  have vendor: "\<forall>k. HasPrefix k ''X-Log-'' \<or> HasPrefix k ''X-Acs-'' \<longrightarrow>
      map_of (Header ?A) k = map_of (Header ?B) k"
    by (auto simp: TestSignature_req_def TestSignature_req_resent_def HasPrefix_def)
  show ?thesis
    using signature_ignores_other_headers [OF wf same get(1-3) vendor, of id "bytes_of ''321''"]
      wf same get by blast
qed

section \<open>Properties of the compressor\<close>

lemma ffLoop_full:
  "di < length dst \<Longrightarrow> length dst \<le> di + l div 255 \<Longrightarrow>
   ffLoop l di dst = Ok (Inl (length dst, take di dst @ replicate (length dst - di) 0xFF))"
proof (induction l di dst rule: ffLoop.induct)
  case (1 lLen di dst)
  from "1.prems" have ge: "255 \<le> lLen"
    by (cases "255 \<le> lLen") auto
  then have d: "lLen div 255 = Suc ((lLen - 255) div 255)"
    by (simp add: le_div_geq)
  have r: "replicate (length dst - di) (0xFF::byte) = 0xFF # replicate (length dst - Suc di) 0xFF"
    using "1.prems" by (metis Suc_diff_Suc replicate_Suc)
  have t: "take (Suc di) (dst[di := 0xFF]) = take di dst @ [0xFF]"
    using "1.prems" by (simp add: take_Suc_conv_app_nth)
  show ?case
  proof (cases "di + 1 = length dst")
    case True
    then have "length dst - di = Suc 0" by simp
    with True ge "1.prems" show ?thesis
      by (simp add: ffLoop.simps [of lLen] upd_conv_take_nth_drop)
  next
    case False
    have "ffLoop (lLen - 255) (di + 1) (dst[di := 0xFF]) =
        Ok (Inl (length (dst[di := 0xFF]),
                 take (di + 1) (dst[di := 0xFF]) @
                 replicate (length (dst[di := 0xFF]) - (di + 1)) 0xFF))"
      using "1.IH" [OF ge "1.prems"(1) False] "1.prems" False d by simp
    then show ?thesis
      using ge "1.prems" False by (simp add: ffLoop.simps [of lLen di dst] t r)
  qed
qed

lemma ffLoop_through:
  "di + l div 255 < length dst \<Longrightarrow>
   ffLoop l di dst =
     Ok (Inr (l mod 255, di + l div 255,
              take di dst @ replicate (l div 255) 0xFF @ drop (di + l div 255) dst))"
proof (induction l di dst rule: ffLoop.induct)
  case (1 lLen di dst)
  show ?case
  proof (cases "255 \<le> lLen")
    case False
    then show ?thesis by (simp add: ffLoop.simps [of lLen])
  next
    case True
    then have d: "lLen div 255 = Suc ((lLen - 255) div 255)"
      by (simp add: le_div_geq)
    have m: "(lLen - 255) mod 255 = lLen mod 255"
      using True by (simp add: le_mod_geq)
    have lt: "di < length dst" and ne: "di + 1 \<noteq> length dst"
      using "1.prems" d by auto
    have t: "take (Suc di) (dst[di := 0xFF]) = take di dst @ [0xFF]"
      using lt by (simp add: take_Suc_conv_app_nth)
    have "ffLoop (lLen - 255) (di + 1) (dst[di := 0xFF]) =
        Ok (Inr ((lLen - 255) mod 255, di + 1 + (lLen - 255) div 255,
                 take (di + 1) (dst[di := 0xFF]) @ replicate ((lLen - 255) div 255) 0xFF @
                 drop (di + 1 + (lLen - 255) div 255) (dst[di := 0xFF])))"
      using "1.IH" [OF True lt ne] "1.prems" d by simp
    then show ?thesis
      using True lt ne by (simp add: ffLoop.simps [of lLen di dst] t d m)
  qed
qed


lemma length_literalHeader:
  "length (literalHeader L) = (if L < 15 then 1 else (L - 15) div 255 + 2)"
  by (simp add: literalHeader_def)

lemma literalBlock_bound: "length (literalBlock src) \<le> CompressBlockBound (length src)"
proof -
  have "(length src - 15) div 255 \<le> length src div 255"
    by (rule div_le_mono) simp
  then show ?thesis
    by (simp add: literalBlock_def length_literalHeader CompressBlockBound_def)
qed

lemma copyTail_fits:
  "di < length dst \<Longrightarrow> di + 1 + length src \<le> length dst \<Longrightarrow>
   copyTail src di dst =
     Ok (di + 1 + length src, take (di + 1) dst @ src @ drop (di + 1 + length src) dst)"
  by (simp add: copyTail_def)

lemma copyTail_short:
  "length dst < di + 1 + length src \<Longrightarrow> copyTail src di dst = Ok (di + 1, dst)"
  by (simp add: copyTail_def)

lemma copyIncompressible_fits:
  assumes "length (literalBlock src) \<le> length dst"
  shows "copyIncompressible src dst =
     Ok (length (literalBlock src), literalBlock src @ drop (length (literalBlock src)) dst)"
proof (cases "length src < 15")
  case True
  with assms have "1 + length src \<le> length dst"
    by (simp add: literalBlock_def length_literalHeader)
  moreover from this have "dst \<noteq> []" by auto
  ultimately show ?thesis
    using True
    by (simp add: copyIncompressible_def copyTail_def literalBlock_def literalHeader_def
        take_Suc_conv_app_nth)
next
  case False
  define k where "k = (length src - 15) div 255"
  from assms False have len: "k + 2 + length src \<le> length dst"
    by (simp add: literalBlock_def length_literalHeader k_def)
  then have lt: "1 + (length src - 15) div 255 < length (dst[0 := 0xF0])"
    by (simp add: k_def)
  have t1: "take (Suc 0) (dst[0 := 0xF0]) = [0xF0]"
    using len by (cases dst) auto
  have loop: "ffLoop (length src - 15) (Suc 0) (dst[0 := 0xF0]) =
      Ok (Inr ((length src - 15) mod 255, Suc k,
               0xF0 # replicate k 0xFF @ drop (Suc k) dst))"
    using ffLoop_through [OF lt] t1 by (simp add: k_def)
  have upd: "(replicate k 0xFF @ drop (Suc k) dst)[k := x] =
      replicate k 0xFF @ x # drop (Suc (Suc k)) dst" for x :: byte
  proof -
    have "drop (Suc k) dst = dst ! (Suc k) # drop (Suc (Suc k)) dst"
      using len by (simp add: Cons_nth_drop_Suc)
    then show ?thesis
      by (simp add: list_update_append nth_append)
  qed
  have ne: "dst \<noteq> []" "length dst \<noteq> Suc 0"
    using len by auto
  show ?thesis
    using False len ne
    by (auto simp add: copyIncompressible_def loop upd copyTail_def literalBlock_def
        literalHeader_def k_def [symmetric] ac_simps)
qed


lemma copyIncompressible_short:
  assumes "0 < length dst" and "length dst < length (literalBlock src)"
  shows "copyIncompressible src dst =
     Ok (min (length (literalHeader (length src))) (length dst),
         take (min (length (literalHeader (length src))) (length dst))
           (literalHeader (length src)) @
         drop (min (length (literalHeader (length src))) (length dst)) dst)"
proof (cases "length src < 15")
  case True
  from assms(1) have ne: "dst \<noteq> []" by auto
  from assms(2) True have "length dst < 1 + length src"
    by (simp add: literalBlock_def length_literalHeader)
  with True ne assms(1) show ?thesis
    by (cases dst) (auto simp add: copyIncompressible_def copyTail_def literalHeader_def)
next
  case False
  define k where "k = (length src - 15) div 255"
  from assms(2) False have short: "length dst < k + 2 + length src"
    by (simp add: literalBlock_def length_literalHeader k_def)
  from assms(1) obtain d ds where dst: "dst = d # ds" by (cases dst) auto
  show ?thesis
  proof (cases "length dst = 1")
    case True
    with False dst show ?thesis
      by (simp add: copyIncompressible_def literalHeader_def)
  next
    case one: False
    with dst have lt1: "Suc 0 < length (0xF0 # ds)" by (cases ds) auto
    show ?thesis
    proof (cases "length dst \<le> 1 + k")
      case True
      then have "length (0xF0 # ds) \<le> Suc 0 + (length src - 15) div 255"
        using dst by (simp add: k_def)
      from ffLoop_full [OF lt1 this]
      have loop: "ffLoop (length src - 15) (Suc 0) (0xF0 # ds) =
          Ok (Inl (Suc (length ds), 0xF0 # replicate (length ds) 0xFF))"
        by simp
      have "length ds \<le> k" using True dst by simp
      then have "take (length ds) (replicate k (0xFF::byte) @ [x]) = replicate (length ds) 0xFF" for x
        by (simp add: min_def)
      with False one dst True show ?thesis
        by (simp add: copyIncompressible_def loop literalHeader_def k_def [symmetric] min_def)
    next
      case through: False
      then have lt: "Suc 0 + (length src - 15) div 255 < length (0xF0 # ds)"
        using dst by (simp add: k_def)
      have loop: "ffLoop (length src - 15) (Suc 0) (0xF0 # ds) =
          Ok (Inr ((length src - 15) mod 255, Suc k, 0xF0 # replicate k 0xFF @ drop k ds))"
        using ffLoop_through [OF lt] by (simp add: k_def)
      have upd: "(replicate k 0xFF @ drop k ds)[k := x] =
          replicate k 0xFF @ x # drop (Suc k) ds" for x :: byte
      proof -
        have "drop k ds = ds ! k # drop (Suc k) ds"
          using through dst by (simp add: Cons_nth_drop_Suc)
        then show ?thesis
          by (simp add: list_update_append nth_append)
      qed
      show ?thesis
        using False one through short dst
        by (auto simp add: copyIncompressible_def loop upd copyTail_def literalHeader_def
            k_def [symmetric] min_def)
    qed
  qed
qed

lemma copyIncompressible_written:
  assumes "0 < length dst"
  shows "\<exists>di. copyIncompressible src dst = Ok (di, take di (literalBlock src) @ drop di dst) \<and>
           di \<le> length dst \<and>
           (if length (literalBlock src) \<le> length dst then di = length (literalBlock src)
            else di = min (length (literalHeader (length src))) (length dst))"
proof (cases "length (literalBlock src) \<le> length dst")
  case True
  then show ?thesis
    using copyIncompressible_fits [OF True] by simp
next
  case False
  then have "length dst < length (literalBlock src)" by simp
  from copyIncompressible_short [OF assms this] False show ?thesis
    by (simp add: literalBlock_def)
qed

lemma sliceTo_length: "sliceTo c buf n = Ok outp \<Longrightarrow> length outp \<le> c"
  by (auto simp: sliceTo_def split: if_splits)

text \<open>
  C4. Whenever \<open>compress\<close> succeeds on an input of length \<open>L\<close>, its output has at
  most \<open>L + L div 255 + 16\<close> bytes, whether the block compressor wrote it or the
  literal-run fallback did.
\<close>

theorem compress_bound:
  assumes "compress cb data = Ok outp"
  shows "length outp \<le> length data + length data div 255 + 16"
  using assms
  by (auto simp: compress_def CompressBlockBound_def split: res.splits if_splits prod.splits
      dest!: sliceTo_length)


lemma copyIncompressible_no_error: "copyIncompressible src dst \<noteq> Error e"
proof (cases "0 < length dst")
  case True
  from copyIncompressible_written [OF True, of src] show ?thesis by auto
next
  case False
  then show ?thesis by (simp add: copyIncompressible_def)
qed

lemma literalHeader_unat:
  "map unat (literalHeader L) =
     (if L < 15 then [16 * L]
      else 240 # replicate ((L - 15) div 255) 255 @ [(L - 15) mod 255])"
proof (cases "L < 15")
  case True
  then have "unat (of_nat (L * 16) :: byte) = 16 * L"
    by (simp add: unat_of_nat del: of_nat_mult)
  with True show ?thesis
    by (simp add: literalHeader_def del: of_nat_mult)
next
  case False
  have "(L - 15) mod 255 < 256"
    by (rule less_trans [of _ 255]) simp_all
  then have "unat (of_nat ((L - 15) mod 255) :: byte) = (L - 15) mod 255"
    by (simp add: unat_of_nat)
  with False show ?thesis
    by (simp add: literalHeader_def)
qed

lemma compress_fallback:
  assumes "cb data (replicate (CompressBlockBound (length data)) 0) = Ok (0, out)"
    and "length out = CompressBlockBound (length data)"
  shows "compress cb data = Ok (literalBlock data)"
proof -
  have fits: "length (literalBlock data) \<le> length out"
    using literalBlock_bound [of data] assms(2) by simp
  show ?thesis
    using assms fits literalBlock_bound [of data]
    by (simp add: compress_def copyIncompressible_fits [OF fits] sliceTo_def)
qed

text \<open>
  C5. When the block compressor reports zero bytes, \<open>compress\<close> returns the
  literal-only block: the token with the length in its high nibble for lengths up to 14,
  or \<open>0xF0\<close>, then \<open>(L - 15) div 255\<close> bytes \<open>0xFF\<close> and the byte
  \<open>(L - 15) mod 255\<close> for longer inputs, then the input itself and nothing after it.
  \<open>copyIncompressible\<close> never returns an error; on a destination that is not empty it
  returns the number of bytes it has written, which are the first bytes of that block, also
  when the destination is too short for the whole block.
\<close>

theorem compress_literal_fallback:
  "(cb data (replicate (CompressBlockBound (length data)) 0) = Ok (0, out) \<and>
    length out = CompressBlockBound (length data) \<longrightarrow>
      compress cb data = Ok (literalHeader (length data) @ data)) \<and>
   map unat (literalHeader (length data)) =
     (if length data < 15 then [16 * length data]
      else 240 # replicate ((length data - 15) div 255) 255 @ [(length data - 15) mod 255]) \<and>
   copyIncompressible src dst \<noteq> Error e \<and>
   (0 < length dst \<longrightarrow>
      (\<exists>di. copyIncompressible src dst =
               Ok (di, take di (literalHeader (length src) @ src) @ drop di dst) \<and>
            di \<le> length dst))"
proof (intro conjI impI)
  assume "cb data (replicate (CompressBlockBound (length data)) 0) = Ok (0, out) \<and>
    length out = CompressBlockBound (length data)"
  then show "compress cb data = Ok (literalHeader (length data) @ data)"
    using compress_fallback [of cb data out] by (simp add: literalBlock_def)
next
  show "map unat (literalHeader (length data)) =
     (if length data < 15 then [16 * length data]
      else 240 # replicate ((length data - 15) div 255) 255 @ [(length data - 15) mod 255])"
    by (rule literalHeader_unat)
next
  show "copyIncompressible src dst \<noteq> Error e"
    by (rule copyIncompressible_no_error)
next
  assume "0 < length dst"
  from copyIncompressible_written [OF this, of src]
  show "\<exists>di. copyIncompressible src dst =
               Ok (di, take di (literalHeader (length src) @ src) @ drop di dst) \<and>
            di \<le> length dst"
    by (auto simp: literalBlock_def)
qed

lemma compress_twentyBytes:
  "compress noCompression twentyBytes = Ok (0xF0 # 5 # twentyBytes)"
  using compress_fallback [of noCompression twentyBytes
      "replicate (CompressBlockBound (length twentyBytes)) 0"]
  by (simp add: noCompression_def literalBlock_def literalHeader_def twentyBytes_def)

lemma compress_twoBytes: "compress twoByteCompression twentyBytes = Ok [0x11, 0x22]"
  by (simp add: compress_def twoByteCompression_def twentyBytes_def CompressBlockBound_def
      sliceTo_def replicate_numeral_Cons)

text \<open>
  Twenty bytes that the block compressor gives up on, and the same bytes compressed to two.
\<close>

theorem compress_bound_witness:
  "compress noCompression twentyBytes = Ok (0xF0 # 5 # twentyBytes) \<and>
   length (0xF0 # 5 # twentyBytes) \<le> length twentyBytes + length twentyBytes div 255 + 16 \<and>
   compress twoByteCompression twentyBytes = Ok [0x11, 0x22] \<and>
   length [0x11, 0x22 :: byte] \<le> length twentyBytes + length twentyBytes div 255 + 16"
  using compress_bound [OF compress_twentyBytes] compress_bound [OF compress_twoBytes]
    compress_twentyBytes compress_twoBytes by simp

text \<open>Three bytes, and twenty bytes into a destination of three.\<close>

theorem compress_literal_fallback_witness:
  "compress noCompression [7, 8, 9] = Ok [0x30, 7, 8, 9] \<and>
   copyIncompressible twentyBytes [0, 0, 0] \<noteq> Error ''e'' \<and>
   (\<exists>di. copyIncompressible twentyBytes [0, 0, 0] =
           Ok (di, take di (literalHeader (length twentyBytes) @ twentyBytes) @
                   drop di [0, 0, 0]) \<and>
         di \<le> length [0, 0, 0 :: byte])"
proof -
  note T = compress_literal_fallback [of noCompression "[7, 8, 9]"
      "replicate (CompressBlockBound (length [7, 8, 9 :: byte])) 0" twentyBytes
      "[0, 0, 0]" "''e''"]
  have a: "noCompression [7, 8, 9] (replicate (CompressBlockBound (length [7, 8, 9 :: byte])) 0) =
      Ok (0, replicate (CompressBlockBound (length [7, 8, 9 :: byte])) 0) \<and>
    length (replicate (CompressBlockBound (length [7, 8, 9 :: byte])) (0 :: byte)) =
      CompressBlockBound (length [7, 8, 9 :: byte])"
    by (simp add: noCompression_def)
  have b: "0 < length [0, 0, 0 :: byte]" by simp
  from T a b show ?thesis
    by (simp add: literalHeader_def)
qed

section \<open>Properties of the response validator\<close>

lemma setField_keeps:
  "HTTPCode (setField f s a) = HTTPCode a \<and> RequestID (setField f s a) = RequestID a"
  by (cases f) (simp_all add: setField_def)

lemma decodeMembers_keeps:
  "decodeMembers kvs a err = (a', err') \<Longrightarrow>
   HTTPCode a' = HTTPCode a \<and> RequestID a' = RequestID a"
proof (induction kvs a err rule: decodeMembers.induct)
  case (1 a err)
  then show ?case by simp
next
  case (2 k v kvs a err)
  then show ?case
    by (auto simp: setField_keeps split: option.splits json.splits)
qed

lemma unmarshal_keeps:
  "unmarshal v a = Inr a' \<Longrightarrow> HTTPCode a' = HTTPCode a \<and> RequestID a' = RequestID a"
  by (auto simp: unmarshal_def split: json.splits prod.splits option.splits
      dest: decodeMembers_keeps)

lemma Decode_keeps:
  "Decode scan body a = Inr a' \<Longrightarrow> HTTPCode a' = HTTPCode a \<and> RequestID a' = RequestID a"
  by (auto simp: Decode_def split: sum.splits dest: unmarshal_keeps)

lemma findField_errorCode: "findField ''errorCode'' = Some FieldCode"
  by (simp add: findField_def)

lemma findField_errorMessage: "findField ''errorMessage'' = Some FieldMessage"
  by (simp add: findField_def)

lemma unmarshal_two_fields:
  "unmarshal (JObject [(''errorCode'', JString c), (''errorMessage'', JString m)]) a =
     Inr (a\<lparr>Code := c, Message := m\<rparr>)"
  by (simp add: unmarshal_def findField_errorCode findField_errorMessage setField_def)

lemma unmarshal_two_fields_swapped:
  "unmarshal (JObject [(''errorMessage'', JString m), (''errorCode'', JString c)]) a =
     Inr (a\<lparr>Code := c, Message := m\<rparr>)"
  by (simp add: unmarshal_def findField_errorCode findField_errorMessage setField_def)

text \<open>
  C3. A response with a status below 400 gives no error, whatever its body. With a status
  of 400 or more the body is decoded into an \<open>AliyunError\<close> that starts with the status
  as \<open>HTTPCode\<close> and the header \<open>X-Log-Requestid\<close> as \<open>RequestID\<close>: if decoding
  fails, the error of the decoder is returned; otherwise the \<open>AliyunError\<close> is, still
  with that \<open>HTTPCode\<close> and \<open>RequestID\<close>, and with \<open>errorCode\<close> in \<open>Code\<close> and
  \<open>errorMessage\<close> in \<open>Message\<close>. A status below \<open>2^31\<close> is read back from
  \<open>HTTPCode\<close> unchanged.
\<close>

theorem validateResponse_cases:
  "(StatusCode resp < 400 \<longrightarrow> validateResponse scan resp = None) \<and>
   (400 \<le> StatusCode resp \<longrightarrow>
      (\<forall>e. Decode scan (RespBody resp) (newAliyunError resp) = Inl e \<longrightarrow>
           validateResponse scan resp = Some (LibError e)) \<and>
      (\<forall>a. Decode scan (RespBody resp) (newAliyunError resp) = Inr a \<longrightarrow>
           validateResponse scan resp = Some (VendorError a) \<and>
           HTTPCode a = word_of_int (StatusCode resp) \<and>
           RequestID a = Get (RespHeader resp) ''X-Log-Requestid'') \<and>
      (scan (RespBody resp) =
         Inr (JObject [(''errorCode'', JString c), (''errorMessage'', JString m)]) \<longrightarrow>
       validateResponse scan resp =
         Some (VendorError
           \<lparr>HTTPCode = word_of_int (StatusCode resp), Code = c, Message = m,
            RequestID = Get (RespHeader resp) ''X-Log-Requestid''\<rparr>)) \<and>
      (StatusCode resp < 2 ^ 31 \<longrightarrow>
       sint (word_of_int (StatusCode resp) :: 32 word) = StatusCode resp))"
proof (intro conjI impI allI)
  assume "StatusCode resp < 400"
  then show "validateResponse scan resp = None"
    by (simp add: validateResponse_def)
next
  fix e
  assume "400 \<le> StatusCode resp"
    and "Decode scan (RespBody resp) (newAliyunError resp) = Inl e"
  then show "validateResponse scan resp = Some (LibError e)"
    by (simp add: validateResponse_def)
next
  fix a
  assume st: "400 \<le> StatusCode resp"
    and dec: "Decode scan (RespBody resp) (newAliyunError resp) = Inr a"
  then show "validateResponse scan resp = Some (VendorError a)"
    by (simp add: validateResponse_def)
  from Decode_keeps [OF dec]
  show "HTTPCode a = word_of_int (StatusCode resp)"
    and "RequestID a = Get (RespHeader resp) ''X-Log-Requestid''"
    by (simp_all add: newAliyunError_def)
next
  assume "400 \<le> StatusCode resp"
    and "scan (RespBody resp) =
         Inr (JObject [(''errorCode'', JString c), (''errorMessage'', JString m)])"
  then show "validateResponse scan resp =
         Some (VendorError
           \<lparr>HTTPCode = word_of_int (StatusCode resp), Code = c, Message = m,
            RequestID = Get (RespHeader resp) ''X-Log-Requestid''\<rparr>)"
    by (simp add: validateResponse_def Decode_def unmarshal_two_fields newAliyunError_def)
next
  assume "400 \<le> StatusCode resp" and "StatusCode resp < 2 ^ 31"
  then show "sint (word_of_int (StatusCode resp) :: 32 word) = StatusCode resp"
    by (simp add: sint_sbintrunc' signed_take_bit_int_eq_self)
qed


text \<open>
  The responses of \<open>TestWriter\<close>: status 200, status 401, and status 401 with a broken
  body.
\<close>

theorem validateResponse_cases_witness:
  "validateResponse TestWriter_scan TestWriter_ok_response = None \<and>
   validateResponse TestWriter_scan TestWriter_error_response =
     Some (VendorError
       \<lparr>HTTPCode = 401, Code = ''ParameterInvalid'',
        Message = ''http extend authorization : LOG :WL2xp3EYvKpsIGgwE3s5HHK7M/c= pair is invalid'',
        RequestID = ''123''\<rparr>) \<and>
   validateResponse TestWriter_scan (TestWriter_error_response\<lparr>RespBody := ''{''\<rparr>) =
     Some (LibError ''EOF'') \<and>
   sint (HTTPCode (newAliyunError TestWriter_error_response)) = 401"
proof -
  have ok: "StatusCode TestWriter_ok_response < 400"
    by (simp add: TestWriter_ok_response_def)
  have st: "400 \<le> StatusCode TestWriter_error_response"
    "StatusCode TestWriter_error_response < 2 ^ 31"
    by (simp_all add: TestWriter_error_response_def)
  have body: "scan_body = scan_body" for scan_body :: string by simp
  have obj: "TestWriter_scan (RespBody TestWriter_error_response) =
      Inr (JObject [(''errorCode'', JString ''ParameterInvalid''),
        (''errorMessage'',
         JString ''http extend authorization : LOG :WL2xp3EYvKpsIGgwE3s5HHK7M/c= pair is invalid'')])"
    by (simp add: TestWriter_scan_def TestWriter_error_response_def TestWriter_json_def)
  have rid: "Get (RespHeader TestWriter_error_response) ''X-Log-Requestid'' = ''123''"
    by (simp add: TestWriter_error_response_def Get_def CanonicalMIMEHeaderKey_def char_eval)
  have st': "400 \<le> StatusCode (TestWriter_error_response\<lparr>RespBody := ''{''\<rparr>)"
    by (simp add: TestWriter_error_response_def)
  have bad: "Decode TestWriter_scan (RespBody (TestWriter_error_response\<lparr>RespBody := ''{''\<rparr>))
      (newAliyunError (TestWriter_error_response\<lparr>RespBody := ''{''\<rparr>)) = Inl ''EOF''"
    by (simp add: Decode_def TestWriter_scan_def TestWriter_body_def)
  note T1 = validateResponse_cases [of TestWriter_ok_response TestWriter_scan]
  note T2 = validateResponse_cases [of TestWriter_error_response TestWriter_scan
      "''ParameterInvalid''"
      "''http extend authorization : LOG :WL2xp3EYvKpsIGgwE3s5HHK7M/c= pair is invalid''"]
  note T3 = validateResponse_cases [of "TestWriter_error_response\<lparr>RespBody := ''{''\<rparr>"
      TestWriter_scan]
  have a: "validateResponse TestWriter_scan TestWriter_ok_response = None"
    using T1 ok by blast
  have b: "validateResponse TestWriter_scan TestWriter_error_response =
     Some (VendorError
       \<lparr>HTTPCode = word_of_int (StatusCode TestWriter_error_response),
        Code = ''ParameterInvalid'',
        Message = ''http extend authorization : LOG :WL2xp3EYvKpsIGgwE3s5HHK7M/c= pair is invalid'',
        RequestID = Get (RespHeader TestWriter_error_response) ''X-Log-Requestid''\<rparr>)"
    using T2 st(1) obj by blast
  have c: "validateResponse TestWriter_scan (TestWriter_error_response\<lparr>RespBody := ''{''\<rparr>) =
     Some (LibError ''EOF'')"
    using T3 st' bad by blast
  have d: "sint (word_of_int (StatusCode TestWriter_error_response) :: 32 word) =
      StatusCode TestWriter_error_response"
    using T2 st by blast
  have code: "StatusCode TestWriter_error_response = 401"
    by (simp add: TestWriter_error_response_def)
  show ?thesis
    using a b c d by (simp add: rid code newAliyunError_def)
qed

lemma canon_two_fields:
  "canon (JObject [(''errorCode'', JString c), (''errorMessage'', JString m)]) =
     JObject [(''errorCode'', JString c), (''errorMessage'', JString m)]"
  by (simp add: lastMembers_def List.map_filter_def)

lemma canon_two_fields_swapped:
  "canon (JObject [(''errorMessage'', JString m), (''errorCode'', JString c)]) =
     JObject [(''errorCode'', JString c), (''errorMessage'', JString m)]"
  by (simp add: lastMembers_def List.map_filter_def)

text \<open>
  C8. For an error response whose body is the object of the two members \<open>errorCode\<close>
  and \<open>errorMessage\<close> (in either order) with string values, the \<open>AliyunError\<close> that
  \<open>validateResponse\<close> returns carries the two strings and serialises to JSON that is
  semantically equal to the body.
\<close>

theorem AliyunError_roundtrip:
  assumes "400 \<le> StatusCode resp"
    and "scan (RespBody resp) = Inr body"
    and "body = JObject [(''errorCode'', JString c), (''errorMessage'', JString m)] \<or>
         body = JObject [(''errorMessage'', JString m), (''errorCode'', JString c)]"
  shows "\<exists>a. validateResponse scan resp = Some (VendorError a) \<and>
              Code a = c \<and> Message a = m \<and> JSONEq (AliyunError_Error a) body"
proof -
  have "unmarshal body (newAliyunError resp) = Inr ((newAliyunError resp)\<lparr>Code := c, Message := m\<rparr>)"
    using assms(3) unmarshal_two_fields unmarshal_two_fields_swapped by auto
  then have "validateResponse scan resp =
      Some (VendorError ((newAliyunError resp)\<lparr>Code := c, Message := m\<rparr>))"
    using assms(1,2) by (simp add: validateResponse_def Decode_def)
  moreover have "JSONEq (AliyunError_Error ((newAliyunError resp)\<lparr>Code := c, Message := m\<rparr>)) body"
    using assms(3)
    by (auto simp: JSONEq_def AliyunError_Error_def canon_two_fields canon_two_fields_swapped
        simp del: canon.simps)
  ultimately show ?thesis by simp
qed

text \<open>The error response of \<open>TestWriter\<close>.\<close>

theorem AliyunError_roundtrip_witness:
  "\<exists>a. validateResponse TestWriter_scan TestWriter_error_response = Some (VendorError a) \<and>
        Code a = ''ParameterInvalid'' \<and>
        Message a = ''http extend authorization : LOG :WL2xp3EYvKpsIGgwE3s5HHK7M/c= pair is invalid'' \<and>
        JSONEq (AliyunError_Error a) TestWriter_json"
proof -
  have st: "400 \<le> StatusCode TestWriter_error_response"
    by (simp add: TestWriter_error_response_def)
  have sc: "TestWriter_scan (RespBody TestWriter_error_response) = Inr TestWriter_json"
    by (simp add: TestWriter_scan_def TestWriter_error_response_def)
  have shape: "TestWriter_json =
      JObject [(''errorCode'', JString ''ParameterInvalid''),
        (''errorMessage'',
         JString ''http extend authorization : LOG :WL2xp3EYvKpsIGgwE3s5HHK7M/c= pair is invalid'')] \<or>
    TestWriter_json =
      JObject [(''errorMessage'',
         JString ''http extend authorization : LOG :WL2xp3EYvKpsIGgwE3s5HHK7M/c= pair is invalid''),
        (''errorCode'', JString ''ParameterInvalid'')]"
    by (simp add: TestWriter_json_def)
  show ?thesis
    using AliyunError_roundtrip [of TestWriter_error_response TestWriter_scan TestWriter_json
        "''ParameterInvalid''"
        "''http extend authorization : LOG :WL2xp3EYvKpsIGgwE3s5HHK7M/c= pair is invalid''",
        OF st sc shape]
    by simp
qed

section \<open>Properties of the encoder and of WriteMessage\<close>

lemma contentsLoop_map:
  "contentsLoop kvs contents = contents @ map (\<lambda>kv. \<lparr>Key = fst kv, Value = snd kv\<rparr>) kvs"
  by (induction kvs arbitrary: contents) auto

lemma logsLoop_map:
  "i + length messages \<le> length logs \<Longrightarrow>
   logsLoop i messages logs =
     take i logs @ map (\<lambda>m. Some (logOf m)) messages @ drop (i + length messages) logs"
proof (induction messages arbitrary: i logs)
  case Nil
  then show ?case by simp
next
  case (Cons m ms)
  then have lt: "i < length logs" by simp
  have "logsLoop (i + 1) ms (logs[i := Some (logOf m)]) =
      take (i + 1) (logs[i := Some (logOf m)]) @ map (\<lambda>m. Some (logOf m)) ms @
      drop (i + 1 + length ms) (logs[i := Some (logOf m)])"
    using Cons.prems by (intro Cons.IH) simp
  with lt show ?case
    by (simp add: logOf_def contentsLoop_map take_Suc_conv_app_nth)
qed

lemma Logs_encodeGroup:
  "Logs (encodeGroup w messages) = map (\<lambda>m. Some (logOf m)) messages"
  by (simp add: encodeGroup_def logsLoop_map)

lemma uint_Log_Time: "uint (Log_Time (logOf m)) = Unix (Time m) mod 2 ^ 32"
  by (simp add: logOf_def unsigned_of_int take_bit_eq_mod)

text \<open>
  C10. The time of every encoded log is the Unix time of its message reduced modulo
  \<open>2^32\<close> (the conversion to \<open>uint32\<close>). \<open>encode\<close> builds a log for every message
  and fails only if the marshaller does: no time is rejected. For a message before 1970 or
  from second \<open>2^32\<close> (in 2106) on, the encoded time differs from the Unix time.
\<close>

theorem encode_time_wraps:
  "map (map_option (\<lambda>l. uint (Log_Time l))) (Logs (encodeGroup w messages)) =
     map (\<lambda>m. Some (Unix (Time m) mod 2 ^ 32)) messages \<and>
   encode marshal w messages = marshal (encodeGroup w messages) \<and>
   (Unix (Time m) < 0 \<or> 2 ^ 32 \<le> Unix (Time m) \<longrightarrow>
      (\<exists>l. Logs (encodeGroup w [m]) = [Some l] \<and>
           uint (Log_Time l) = Unix (Time m) mod 2 ^ 32 \<and>
           uint (Log_Time l) \<noteq> Unix (Time m)))"
proof (intro conjI impI)
  show "map (map_option (\<lambda>l. uint (Log_Time l))) (Logs (encodeGroup w messages)) =
     map (\<lambda>m. Some (Unix (Time m) mod 2 ^ 32)) messages"
    by (simp add: Logs_encodeGroup uint_Log_Time)
next
  show "encode marshal w messages = marshal (encodeGroup w messages)"
    by (simp add: encode_def)
next
  assume out: "Unix (Time m) < 0 \<or> 2 ^ 32 \<le> Unix (Time m)"
  have "0 \<le> Unix (Time m) mod 2 ^ 32" "Unix (Time m) mod 2 ^ 32 < 2 ^ 32"
    by simp_all
  with out have "Unix (Time m) mod 2 ^ 32 \<noteq> Unix (Time m)"
    by linarith
  then show "\<exists>l. Logs (encodeGroup w [m]) = [Some l] \<and>
           uint (Log_Time l) = Unix (Time m) mod 2 ^ 32 \<and>
           uint (Log_Time l) \<noteq> Unix (Time m)"
    by (simp add: Logs_encodeGroup uint_Log_Time)
qed

text \<open>The last second of 1969 and the first second that does not fit in 32 bits.\<close>

theorem encode_time_wraps_witness:
  "(\<exists>l. Logs (encodeGroup TestWriter_writer [message1969]) = [Some l] \<and>
        uint (Log_Time l) = 4294967295 \<and> uint (Log_Time l) \<noteq> Unix (Time message1969)) \<and>
   (\<exists>l. Logs (encodeGroup TestWriter_writer [message2106]) = [Some l] \<and>
        uint (Log_Time l) = 0 \<and> uint (Log_Time l) \<noteq> Unix (Time message2106))"
proof -
  have a: "Unix (Time message1969) < 0 \<or> 2 ^ 32 \<le> Unix (Time message1969)"
    by (simp add: message1969_def)
  have b: "Unix (Time message2106) < 0 \<or> 2 ^ 32 \<le> Unix (Time message2106)"
    by (simp add: message2106_def)
  have ma: "Unix (Time message1969) mod 2 ^ 32 = 4294967295"
    by (simp add: message1969_def)
  have mb: "Unix (Time message2106) mod 2 ^ 32 = 0"
    by (simp add: message2106_def)
  from encode_time_wraps [of TestWriter_writer "[]" wire_LogGroup message1969] a ma
  have "\<exists>l. Logs (encodeGroup TestWriter_writer [message1969]) = [Some l] \<and>
        uint (Log_Time l) = 4294967295 \<and> uint (Log_Time l) \<noteq> Unix (Time message1969)"
    by auto
  moreover from encode_time_wraps [of TestWriter_writer "[]" wire_LogGroup message2106] b mb
  have "\<exists>l. Logs (encodeGroup TestWriter_writer [message2106]) = [Some l] \<and>
        uint (Log_Time l) = 0 \<and> uint (Log_Time l) \<noteq> Unix (Time message2106)"
    by auto
  ultimately show ?thesis by blast
qed

text \<open>
  C7. \<open>WriteMessage\<close> without messages returns no error and leaves the outside world as
  it is, whatever the marshaller, the compressor, the request builder and the HTTP client
  would do: none of them is called.
\<close>

theorem WriteMessage_empty: "WriteMessage env w [] s = (Ok (), s)"
  by (simp add: WriteMessage_def)

section \<open>Properties of the wire format\<close>

lemma unat_of_char: "unat (of_char c :: byte) = of_char c"
proof -
  have "unat (of_char c :: byte) = unat (of_nat (of_char c) :: byte)"
    by (simp only: of_nat_of_char)
  also have "\<dots> = of_char c mod 256"
    by (simp add: unat_of_nat)
  also have "\<dots> = of_char c"
    by simp
  finally show ?thesis .
qed

lemma string_of_bytes_of: "string_of (bytes_of s) = s"
  by (simp add: string_of_def bytes_of_def unat_of_char map_idI)

lemma map_Some_map_filter: "None \<notin> set xs \<Longrightarrow> map Some (List.map_filter id xs) = xs"
proof (induction xs)
  case Nil
  then show ?case by (simp add: List.map_filter_simps)
next
  case (Cons a xs)
  then obtain y where "a = Some y" by (cases a) auto
  with Cons show ?case by (simp add: List.map_filter_simps)
qed

lemma getVarint_varint: "getVarint (varint n @ rest) = Some (n, rest)"
proof (induction n rule: varint.induct)
  case (1 n)
  show ?case
  proof (cases "n < 128")
    case True
    then have "unat (of_nat n :: byte) = n"
      by (simp add: unat_of_nat)
    with True show ?thesis
      by (simp add: varint.simps [of n])
  next
    case False
    have "n mod 128 < 128" by simp
    then have "128 + n mod 128 < 256" by linarith
    then have u: "unat (of_nat (128 + n mod 128) :: byte) = 128 + n mod 128"
      by (simp add: unat_of_nat del: of_nat_add)
    from False 1 have "getVarint (varint (n div 128) @ rest) = Some (n div 128, rest)"
      by simp
    with False u show ?thesis
      by (simp add: varint.simps [of n] del: of_nat_add)
  qed
qed

lemma varint_nonempty: "varint n \<noteq> []"
  by (subst varint.simps) simp

lemma getFields_Nil: "getFields [] = Some []"
  by (simp add: getFields.simps)

lemma getFields_lenField:
  "getFields (lenField f p @ rest) = map_option (\<lambda>fs. (f, Bytes p) # fs) (getFields rest)"
proof -
  have "(8 * f + 2) mod 8 = 2" "(8 * f + 2) div 8 = f" by presburger+
  then show ?thesis
    by (subst getFields.simps)
      (simp add: lenField_def varint_nonempty getVarint_varint)
qed

lemma getFields_varintField:
  "getFields (varintField f n @ rest) = map_option (\<lambda>fs. (f, Varint n) # fs) (getFields rest)"
  by (subst getFields.simps)
    (simp add: varintField_def varint_nonempty getVarint_varint)

lemma getFields_concat:
  "getFields (concat (map (\<lambda>x. lenField f (enc x)) xs) @ rest) =
     map_option (\<lambda>fs. map (\<lambda>x. (f, Bytes (enc x))) xs @ fs) (getFields rest)"
  by (induction xs) (simp_all add: getFields_lenField option.map_comp comp_def option.map_ident)

lemma decode_wire_Content: "decode_Content (wire_Content c) = Some c"
  using getFields_lenField [of 1 "bytes_of (Key c)" "lenField 2 (bytes_of (Value c))"]
    getFields_lenField [of 2 "bytes_of (Value c)" "[]"]
  by (simp add: decode_Content_def wire_Content_def getFields_Nil contentField_def
      string_of_bytes_of)

lemma foldFields_contents:
  "foldFields logField l (map (\<lambda>c. (2, Bytes (wire_Content c))) cs) =
     Some (l\<lparr>Log_Contents := Log_Contents l @ cs\<rparr>)"
  by (induction cs arbitrary: l) (simp_all add: logField_def decode_wire_Content)

lemma decode_wire_Log: "decode_Log (wire_Log l) = Some l"
  using getFields_varintField [of 1 "unat (Log_Time l)"
      "concat (map (\<lambda>c. lenField 2 (wire_Content c)) (Log_Contents l))"]
    getFields_concat [of 2 wire_Content "Log_Contents l" "[]"]
  by (simp add: decode_Log_def wire_Log_def getFields_Nil foldFields_contents logField_def)

lemma foldFields_logs:
  "foldFields groupField g (map (\<lambda>l. (3, Bytes (wire_Log l))) ls) =
     Some (g\<lparr>Logs := Logs g @ map Some ls\<rparr>)"
  by (induction ls arbitrary: g) (simp_all add: groupField_def decode_wire_Log)

lemma decode_wire_LogGroup:
  assumes "wire_LogGroup g = Inr bs"
  shows "decode_LogGroup bs = Some g"
proof -
  from assms have nonil: "None \<notin> set (Logs g)"
    by (auto simp: wire_LogGroup_def split: if_splits)
  define ls where "ls = List.map_filter id (Logs g)"
  have logs: "map Some ls = Logs g"
    using nonil unfolding ls_def by (rule map_Some_map_filter)
  from assms nonil have bs: "bs = lenField 1 (bytes_of (Topic g)) @ lenField 2 (bytes_of (Source g)) @
      concat (map (\<lambda>l. lenField 3 (wire_Log l)) ls)"
    by (simp add: wire_LogGroup_def ls_def)
  have "getFields bs = Some ((1, Bytes (bytes_of (Topic g))) # (2, Bytes (bytes_of (Source g))) #
      map (\<lambda>l. (3, Bytes (wire_Log l))) ls)"
    using getFields_concat [of 3 wire_Log ls "[]"]
    by (simp add: bs getFields_lenField getFields_Nil)
  then show ?thesis
    by (simp add: decode_LogGroup_def groupField_def foldFields_logs string_of_bytes_of logs)
qed

lemma encode_wire:
  "\<exists>bs. encode wire_LogGroup w messages = Inr bs \<and>
        decode_LogGroup bs = Some (encodeGroup w messages)"
proof -
  have "None \<notin> set (Logs (encodeGroup w messages))"
    by (auto simp: Logs_encodeGroup)
  then obtain bs where bs: "wire_LogGroup (encodeGroup w messages) = Inr bs"
    by (simp add: wire_LogGroup_def)
  from decode_wire_LogGroup [OF bs] bs show ?thesis
    by (simp add: encode_def)
qed

lemma map_filter_Some: "List.map_filter id (map (\<lambda>x. Some (f x)) xs) = map f xs"
  by (induction xs) (simp_all add: List.map_filter_simps)

lemma decodedTimes_mod:
  "decodedTimes w messages = Some (map (\<lambda>m. Unix (Time m) mod 2 ^ 32) messages)"
proof -
  from encode_wire [of w messages] obtain bs
    where "encode wire_LogGroup w messages = Inr bs"
      and "decode_LogGroup bs = Some (encodeGroup w messages)"
    by blast
  then show ?thesis
    by (simp add: decodedTimes_def Logs_encodeGroup map_filter_Some uint_Log_Time comp_def)
qed

text \<open>
  A message of the year 2106: its log is decoded with time 0, not with its Unix time.
\<close>

theorem decodedTimes_counterexample:
  "decodedTimes TestWriter_writer [message2106] \<noteq> Some (unixTimes [message2106])"
  by (simp add: decodedTimes_mod unixTimes_def message2106_def)

text \<open>
  C6, as the code has it. For every sequence of messages (the non-empty ones among them)
  the encoder's output decodes to a log group with the topic and the source of the writer
  and with one log for each message, in the order of the messages, whose time is the Unix
  time of the message in whole seconds reduced modulo \<open>2^32\<close>: the Unix time itself
  for every message from 1970 to the end of second \<open>2^32 - 1\<close> in 2106.
\<close>

theorem encode_decode:
  "\<exists>bs g. encode wire_LogGroup w messages = Inr bs \<and> decode_LogGroup bs = Some g \<and>
     Topic g = topic w \<and> Source g = source w \<and>
     Logs g = map (\<lambda>m. Some (logOf m)) messages \<and>
     map (map_option (\<lambda>l. uint (Log_Time l))) (Logs g) =
       map (\<lambda>m. Some (Unix (Time m) mod 2 ^ 32)) messages \<and>
     ((\<forall>m \<in> set messages. 0 \<le> Unix (Time m) \<and> Unix (Time m) < 2 ^ 32) \<longrightarrow>
      map (map_option (\<lambda>l. uint (Log_Time l))) (Logs g) =
        map (\<lambda>m. Some (Unix (Time m))) messages)"
proof -
  from encode_wire [of w messages] obtain bs
    where bs: "encode wire_LogGroup w messages = Inr bs"
      and dec: "decode_LogGroup bs = Some (encodeGroup w messages)"
    by blast
  have times: "map (map_option (\<lambda>l. uint (Log_Time l))) (Logs (encodeGroup w messages)) =
      map (\<lambda>m. Some (Unix (Time m) mod 2 ^ 32)) messages"
    by (simp add: Logs_encodeGroup uint_Log_Time)
  have "map (\<lambda>m. Some (Unix (Time m) mod 2 ^ 32)) messages =
      map (\<lambda>m. Some (Unix (Time m))) messages"
    if "\<forall>m \<in> set messages. 0 \<le> Unix (Time m) \<and> Unix (Time m) < 2 ^ 32"
    using that by (intro map_cong) auto
  with bs dec times show ?thesis
    by (intro exI [of _ bs] exI [of _ "encodeGroup w messages"])
      (simp add: Logs_encodeGroup encodeGroup_def [of w messages, THEN arg_cong [of _ _ Topic]]
        encodeGroup_def [of w messages, THEN arg_cong [of _ _ Source]])
qed

text \<open>\<open>ShortMessage\<close>, written by the writer of the tests.\<close>

theorem encode_decode_witness:
  "\<exists>bs g. encode wire_LogGroup TestWriter_writer [ShortMessage] = Inr bs \<and>
     decode_LogGroup bs = Some g \<and>
     Topic g = ''test-topic'' \<and> Source g = ''127.0.0.1'' \<and>
     map (map_option (\<lambda>l. uint (Log_Time l))) (Logs g) = [Some 1577836800]"
proof -
  have range: "\<forall>m \<in> set [ShortMessage]. 0 \<le> Unix (Time m) \<and> Unix (Time m) < 2 ^ 32"
    by (simp add: ShortMessage_def)
  from encode_decode [of TestWriter_writer "[ShortMessage]"] range
  show ?thesis
    by (auto simp: TestWriter_writer_def NewWriter_def ShortMessage_def)
qed

end
